theory Spec2Isabelle
  imports Complex_Main "HOL-Library.Multiset"
begin

section \<open>BasicThenable\<close>

text \<open>
  Values that can be handed to \<open>resolve\<close> and \<open>reject\<close>. \<open>Self\<close> is the thenable object
  itself (\<open>val === thenableObj\<close>); \<open>TypeErr\<close> is the error made by \<open>recursiveError\<close>;
  \<open>ThenObj sc\<close> is a foreign object whose \<open>then(onFulfil, onReject)\<close> method runs the
  script \<open>sc\<close> synchronously: it calls its first argument, its second argument, or throws.
  Every other value is one for which \<open>getThenableThen\<close> answers false.
\<close>

datatype val = Undefined | Num int | TypeErr | Self | ThenObj script
and script = Done | CallFulfil val script | CallReject val script | Throw val

text \<open>
  The closure variables of one \<open>BasicThenable()\<close> call. \<open>resolveCalled\<close> and
  \<open>rejectCalled\<close> are the \<open>called\<close> counters of the two \<open>oneTime\<close> wrappers around
  \<open>resolve\<close> and \<open>reject\<close>. The queue holds the identifiers of the \<open>then\<close>
  registrations, in order.
\<close>

record thenable =
  state :: int
  queue :: "nat list"
  "value" :: val
  scheduled :: nat
  completeCalled :: nat
  resolveCalled :: nat
  rejectCalled :: nat

definition BasicThenable :: thenable where
  "BasicThenable = \<lparr> state = 0, queue = [], value = Undefined, scheduled = 0,
     completeCalled = 0, resolveCalled = 0, rejectCalled = 0 \<rparr>"

definition scheduleQueueFlush :: "thenable \<Rightarrow> thenable" where
  "scheduleQueueFlush t = (if scheduled t = 0 then t\<lparr> scheduled := 1 \<rparr> else t)"

fun getThenableThen :: "val \<Rightarrow> script option" where
  "getThenableThen (ThenObj sc) = Some sc"
| "getThenableThen _ = None"

text \<open>
  \<open>complete st val\<close>, and \<open>runThen\<close> for the call \<open>valThen.call(val, oneTime(..), oneTime(..))\<close>
  inside its \<open>try\<close> block. \<open>runThen sc ig fc rc t\<close> carries the local counter
  \<open>ignoreThrow\<close> and the \<open>called\<close> counters of the two fresh \<open>oneTime\<close> wrappers, and
  contains the \<open>catch\<close> clause for a throwing script.
\<close>

function complete :: "int \<Rightarrow> val \<Rightarrow> thenable \<Rightarrow> thenable"
  and runThen :: "script \<Rightarrow> nat \<Rightarrow> nat \<Rightarrow> nat \<Rightarrow> thenable \<Rightarrow> thenable"
where
  "complete st v t =
     (let t1 = t\<lparr> completeCalled := completeCalled t + 1 \<rparr> in
      if v = Self then
        (if state t1 = 0 then complete (- 1) TypeErr t1 else t1)
      else
        (case (if st > 0 then getThenableThen v else None) of
           Some sc \<Rightarrow> runThen sc 0 0 0 t1
         | None \<Rightarrow> scheduleQueueFlush (t1\<lparr> state := st, value := v \<rparr>)))"
| "runThen Done ig fc rc t = t"
| "runThen (CallFulfil v sc) ig fc rc t =
     (if fc = 0 then runThen sc (ig + 1) (fc + 1) rc (complete 1 v t)
      else runThen sc ig (fc + 1) rc t)"
| "runThen (CallReject v sc) ig fc rc t =
     (if rc = 0 then runThen sc (ig + 1) fc (rc + 1) (complete (- 1) v t)
      else runThen sc ig fc (rc + 1) t)"
| "runThen (Throw e) ig fc rc t =
     (if state t = 0 \<and> ig = 0 then complete (- 1) e t else t)"
  by pat_completeness auto
termination
  by (relation "measure (\<lambda>x. case x of
        Inl (st, v, t) \<Rightarrow> 2 * size v + (if v = Self then 1 else 0)
      | Inr (sc, ig, fc, rc, t) \<Rightarrow> 2 * size sc)")
    (auto split: if_splits elim!: getThenableThen.elims)

text \<open>\<open>resolve\<close> and \<open>reject\<close>: \<open>oneTime\<close> around the \<open>completeCalled\<close> test.\<close>

definition resolve :: "val \<Rightarrow> thenable \<Rightarrow> thenable" where
  "resolve v t =
     (let t1 = t\<lparr> resolveCalled := resolveCalled t + 1 \<rparr> in
      if resolveCalled t = 0 then
        (if completeCalled t1 = 0 then complete 1 v t1 else t1)
      else t1)"

definition reject :: "val \<Rightarrow> thenable \<Rightarrow> thenable" where
  "reject v t =
     (let t1 = t\<lparr> rejectCalled := rejectCalled t + 1 \<rparr> in
      if rejectCalled t = 0 then
        (if completeCalled t1 = 0 then complete (- 1) v t1 else t1)
      else t1)"

text \<open>
  \<open>then\<close> pushes a \<open>handleNext\<close> closure, named here by the identifier \<open>cb\<close> of the
  registration, and schedules a flush when the thenable has settled. \<open>flushQueue\<close> runs
  every queued closure; each one reads \<open>state\<close> and \<open>value\<close> at that moment, which is
  what the callback pair of the registration observes: \<open>(cb, state > 0, value)\<close>.
\<close>

definition then_reg :: "nat \<Rightarrow> thenable \<Rightarrow> thenable" where
  "then_reg cb t =
     (let t1 = t\<lparr> queue := queue t @ [cb] \<rparr> in
      if state t1 \<noteq> 0 then scheduleQueueFlush t1 else t1)"

definition flushQueue :: "thenable \<Rightarrow> (nat \<times> bool \<times> val) list \<times> thenable" where
  "flushQueue t =
     (map (\<lambda>cb. (cb, state t > 0, value t)) (queue t),
      t\<lparr> scheduled := 0, queue := [] \<rparr>)"

section \<open>World3DFacade: the pending octree changeset\<close>

text \<open>
  A bounding sphere: centre and radius.
\<close>

record sphere =
  centerX :: real
  centerY :: real
  centerZ :: real
  radius :: real

text \<open>
  What \<open>_updateOctree\<close> reads of an Object3DFacade: the \<open>isDestroying\<close> flag and the
  result of \<open>facade.getBoundingSphere && facade.getBoundingSphere()\<close> (\<open>None\<close> when the
  method is missing or answers null).
\<close>

record object3d =
  isDestroying :: bool
  getBoundingSphere :: "sphere option"

text \<open>
  Modelled from the spec: the class \<open>BoundingSphereOctree\<close> is not among the sources.
  The spec describes the index as a mapping from object identifiers to bounding spheres:
  \<open>putSphere\<close> records or updates the sphere of an identifier, \<open>removeSphere\<close> deletes
  any entry of the identifier and is idempotent.
\<close>

type_synonym octree = "nat \<rightharpoonup> sphere"

definition putSphere :: "nat \<Rightarrow> sphere \<Rightarrow> octree \<Rightarrow> octree" where
  "putSphere facadeId s octree = octree(facadeId \<mapsto> s)"

definition removeSphere :: "nat \<Rightarrow> octree \<Rightarrow> octree" where
  "removeSphere facadeId octree = octree(facadeId := None)"

text \<open>
  The changeset \<open>{remove, put}\<close>: each of the two members is absent or an object keyed by
  facade id; only the keys are read at the flush, so a member is the list of its keys in
  enumeration order.
\<close>

record changeset =
  remove :: "nat list option"
  put :: "nat list option"

record world3d =
  boundingSphereOctree :: "octree option"
  octreeChangeset :: "changeset option"
  object3DFacadesById :: "nat \<rightharpoonup> object3d"

datatype change_type = ChangePut | ChangeRemove

definition addKey :: "nat \<Rightarrow> nat list option \<Rightarrow> nat list option" where
  "addKey k m = (case m of None \<Rightarrow> Some [k]
                 | Some ks \<Rightarrow> if k \<in> set ks then Some ks else Some (ks @ [k]))"

definition queueForOctreeChange :: "change_type \<Rightarrow> nat \<Rightarrow> world3d \<Rightarrow> world3d" where
  "queueForOctreeChange changeType facadeId w =
     (let changes = (case octreeChangeset w of
                       None \<Rightarrow> \<lparr> remove = None, put = None \<rparr>
                     | Some c \<Rightarrow> c)
      in w\<lparr> octreeChangeset := Some
            (case changeType of
               ChangePut \<Rightarrow> changes\<lparr> put := addKey facadeId (put changes) \<rparr>
             | ChangeRemove \<Rightarrow> changes\<lparr> remove := addKey facadeId (remove changes) \<rparr>) \<rparr>)"

text \<open>\<open>m && m[k]\<close> for a member of the changeset.\<close>

definition hasKey :: "nat \<Rightarrow> nat list option \<Rightarrow> bool" where
  "hasKey k m = (case m of None \<Rightarrow> False | Some ks \<Rightarrow> k \<in> set ks)"

text \<open>One round of the \<open>for (let facadeId in put)\<close> loop of \<open>_updateOctree\<close>.\<close>

definition putStep ::
  "(nat \<rightharpoonup> object3d) \<Rightarrow> nat list option \<Rightarrow> nat \<Rightarrow> octree \<Rightarrow> octree" where
  "putStep byId rem facadeId octree =
     (case byId facadeId of
        None \<Rightarrow> octree
      | Some facade \<Rightarrow>
          if \<not> isDestroying facade \<and> \<not> hasKey facadeId rem
          then (case getBoundingSphere facade of
                  Some s \<Rightarrow> putSphere facadeId s octree
                | None \<Rightarrow> removeSphere facadeId octree)
          else octree)"

definition updateOctree :: "world3d \<Rightarrow> octree option \<times> world3d" where
  "updateOctree w =
     (case octreeChangeset w of
        None \<Rightarrow> (boundingSphereOctree w, w)
      | Some changes \<Rightarrow>
          (let octree0 = (case boundingSphereOctree w of None \<Rightarrow> Map.empty | Some t \<Rightarrow> t);
               octree1 = (case remove changes of
                            None \<Rightarrow> octree0
                          | Some rs \<Rightarrow> fold removeSphere rs octree0);
               octree2 = (case put changes of
                            None \<Rightarrow> octree1
                          | Some ps \<Rightarrow> fold (putStep (object3DFacadesById w) (remove changes)) ps octree1)
           in (Some octree2,
               w\<lparr> boundingSphereOctree := Some octree2, octreeChangeset := None \<rparr>)))"

text \<open>The notifications that feed the changeset.\<close>

definition object3DAdded :: "nat \<Rightarrow> object3d \<Rightarrow> world3d \<Rightarrow> world3d" where
  "object3DAdded facadeId source w =
     queueForOctreeChange ChangePut facadeId
       (w\<lparr> object3DFacadesById := (object3DFacadesById w)(facadeId \<mapsto> source) \<rparr>)"

definition object3DBoundsChanged :: "nat \<Rightarrow> world3d \<Rightarrow> world3d" where
  "object3DBoundsChanged facadeId w = queueForOctreeChange ChangePut facadeId w"

definition object3DRemoved :: "nat \<Rightarrow> world3d \<Rightarrow> world3d" where
  "object3DRemoved facadeId w =
     queueForOctreeChange ChangeRemove facadeId
       (w\<lparr> object3DFacadesById := (object3DFacadesById w)(facadeId := None) \<rparr>)"

text \<open>The index after a flush; the empty index when no octree exists yet.\<close>

definition indexAfter :: "world3d \<Rightarrow> octree" where
  "indexAfter w = (case fst (updateOctree w) of None \<Rightarrow> Map.empty | Some t \<Rightarrow> t)"

definition indexBefore :: "world3d \<Rightarrow> octree" where
  "indexBefore w = (case boundingSphereOctree w of None \<Rightarrow> Map.empty | Some t \<Rightarrow> t)"

text \<open>A concrete world for evaluation: four objects, three of them indexed.\<close>

definition unitSphere :: sphere where
  "unitSphere = \<lparr> centerX = 0, centerY = 0, centerZ = 0, radius = 1 \<rparr>"

definition bigSphere :: sphere where
  "bigSphere = \<lparr> centerX = 1, centerY = 2, centerZ = 3, radius = 5 \<rparr>"

definition sampleWorld3d :: world3d where
  "sampleWorld3d =
     \<lparr> boundingSphereOctree = Some [1 \<mapsto> unitSphere, 2 \<mapsto> unitSphere, 3 \<mapsto> unitSphere],
       octreeChangeset = Some \<lparr> remove = Some [1], put = Some [1, 2, 3, 4] \<rparr>,
       object3DFacadesById =
         [1 \<mapsto> \<lparr> isDestroying = False, getBoundingSphere = Some bigSphere \<rparr>,
          2 \<mapsto> \<lparr> isDestroying = False, getBoundingSphere = None \<rparr>,
          3 \<mapsto> \<lparr> isDestroying = True, getBoundingSphere = Some bigSphere \<rparr>,
          4 \<mapsto> \<lparr> isDestroying = False, getBoundingSphere = Some bigSphere \<rparr>] \<rparr>"

section \<open>WorldBaseFacade: facades, hits and target selection\<close>

text \<open>
  A facade as the pointer code reads it: its \<open>$facadeId\<close>, its \<open>parent\<close> (null at the
  top of the tree) and whether it has an \<open>onDragStart\<close> property. The parent chain is
  finite by construction.
\<close>

datatype facade = Facade (facadeId: nat) (parent: "facade option") (onDragStart: bool)

text \<open>
  A hit as returned by \<open>getFacadesAtEvent\<close>: the facade, the \<open>distance\<close> along the ray
  and the optional \<open>distanceBias\<close>. Numbers are finite; on finite numbers the sign of the
  difference computed by the comparator is the sign of the exact difference.
\<close>

record hit =
  hfacade :: facade
  distance :: real
  distanceBias :: "real option"

text \<open>\<open>h.distanceBias || 0\<close>\<close>

definition biasOr0 :: "hit \<Rightarrow> real" where
  "biasOr0 h = (case distanceBias h of None \<Rightarrow> 0 | Some b \<Rightarrow> b)"

text \<open>The comparator \<open>(a, b) => (a.distance - b.distance) || (biasA - biasB)\<close>.\<close>

definition hitCompare :: "hit \<Rightarrow> hit \<Rightarrow> real" where
  "hitCompare a b =
     (if distance a - distance b \<noteq> 0 then distance a - distance b
      else biasOr0 a - biasOr0 b)"

text \<open>
  \<open>Array.prototype.sort\<close> with a comparator is the language's stable sort: an element
  moves behind another one only when the comparator answers a positive number for the pair.
  It is taken here as insertion from the right.
\<close>

fun insertWith :: "('a \<Rightarrow> 'a \<Rightarrow> real) \<Rightarrow> 'a \<Rightarrow> 'a list \<Rightarrow> 'a list" where
  "insertWith cmp x [] = [x]"
| "insertWith cmp x (y # ys) =
     (if cmp x y \<le> 0 then x # y # ys else y # insertWith cmp x ys)"

definition sortWith :: "('a \<Rightarrow> 'a \<Rightarrow> real) \<Rightarrow> 'a list \<Rightarrow> 'a list" where
  "sortWith cmp xs = foldr (insertWith cmp) xs []"

definition sortHits :: "hit list \<Rightarrow> hit list" where
  "sortHits allHits = sortWith hitCompare allHits"



section \<open>WorldBaseFacade: events, listeners and dispatch\<close>

text \<open>
  The DOM events the three listeners are attached for. A mouse event carries a position and
  no \<open>touches\<close> property; a touch event carries \<open>touches\<close> and \<open>changedTouches\<close>.
  \<open>eventId\<close> names the event object; \<open>targetIsElement\<close> is \<open>e.target === this._element\<close>.
\<close>

datatype mouse_type = mousemove | mouseout | mousedown | mouseup | click | dblclick | wheel

datatype touch_type = touchmove | touchstart | touchend | touchcancel

record touch =
  touchClientX :: real
  touchClientY :: real

datatype native_event =
    MouseEvent (eventId: nat) (mouseType: mouse_type) (clientX: real) (clientY: real)
      (targetIsElement: bool)
  | TouchEvent (eventId: nat) (touchType: touch_type) (touches: "touch list")
      (changedTouches: "touch list") (targetIsElement: bool)

fun mouseTypeName :: "mouse_type \<Rightarrow> string" where
  "mouseTypeName mousemove = ''mousemove''"
| "mouseTypeName mouseout = ''mouseout''"
| "mouseTypeName mousedown = ''mousedown''"
| "mouseTypeName mouseup = ''mouseup''"
| "mouseTypeName click = ''click''"
| "mouseTypeName dblclick = ''dblclick''"
| "mouseTypeName wheel = ''wheel''"

fun touchTypeName :: "touch_type \<Rightarrow> string" where
  "touchTypeName touchmove = ''touchmove''"
| "touchTypeName touchstart = ''touchstart''"
| "touchTypeName touchend = ''touchend''"
| "touchTypeName touchcancel = ''touchcancel''"

text \<open>\<open>e.type\<close>\<close>

fun eventType :: "native_event \<Rightarrow> string" where
  "eventType (MouseEvent i t x y el) = mouseTypeName t"
| "eventType (TouchEvent i t ts cs el) = touchTypeName t"

definition isTouchEndOrCancel :: "native_event \<Rightarrow> bool" where
  "isTouchEndOrCancel e = (eventType e = ''touchend'' \<or> eventType e = ''touchcancel'')"

text \<open>\<open>pointerActionEventTypeMappings[e.type] || e.type\<close>\<close>

definition mappedActionType :: "native_event \<Rightarrow> string" where
  "mappedActionType e =
     (if eventType e = ''touchstart'' then ''mousedown''
      else if eventType e = ''touchend'' then ''mouseup''
      else if eventType e = ''touchcancel'' then ''mouseup''
      else eventType e)"

definition TAP_DISTANCE_THRESHOLD :: real where "TAP_DISTANCE_THRESHOLD = 10"
definition TAP_GESTURE_MAX_DUR :: int where "TAP_GESTURE_MAX_DUR = 300"
definition TAP_DBLCLICK_MAX_DUR :: int where "TAP_DBLCLICK_MAX_DUR = 300"

text \<open>
  The fields of a \<open>SyntheticEvent\<close> that the pointer code sets or reads. \<open>nativeEventId\<close>
  names the native event it wraps.
\<close>

record synthetic_event =
  evType :: string
  evTarget :: facade
  relatedTarget :: "facade option"
  currentTarget :: "facade option"
  nativeEventId :: nat
  extra :: "hit option"
  propagationStopped :: bool
  defaultPrevented :: bool

definition SyntheticEvent ::
  "native_event \<Rightarrow> string \<Rightarrow> facade \<Rightarrow> facade option \<Rightarrow> hit option \<Rightarrow> synthetic_event" where
  "SyntheticEvent nativeEvent ty tgt related ex =
     \<lparr> evType = ty, evTarget = tgt, relatedTarget = related, currentTarget = None,
       nativeEventId = eventId nativeEvent, extra = ex,
       propagationStopped = False, defaultPrevented = False \<rparr>"

text \<open>
  A registered handler is foreign code. What it can do to the dispatch is call
  \<open>stopPropagation\<close> and \<open>preventDefault\<close> on the event it is given, and throw; its
  \<open>script\<close> gives, for the event as it is at the call, the calls it makes in order.
  Handlers that change the registry or the hover, drag and tap state are outside the model.
\<close>

datatype exn = TypeError | HandlerError nat

datatype handler_action = StopPropagation | PreventDefault | ThrowError exn

record handler =
  handlerId :: nat
  handlerScript :: "synthetic_event \<Rightarrow> handler_action list"

text \<open>
  What is observable of the pipeline from outside: the start of a dispatch
  (\<open>_firePointerEvent\<close> entered for a type and a target), the call of a handler with its
  \<open>this\<close> and the event as it is at the call, and the calls made on a native event
  (named by its \<open>eventId\<close>).
\<close>

datatype effect =
    Fire string facade
  | Invoke handler facade synthetic_event
  | NativePreventDefault nat
  | NativeStopPropagation nat

text \<open>The two methods of \<open>SyntheticEvent\<close> and the run of one handler.\<close>

fun runActions ::
  "handler_action list \<Rightarrow> synthetic_event \<Rightarrow> effect list \<times> synthetic_event \<times> exn option" where
  "runActions [] ev = ([], ev, None)"
| "runActions (StopPropagation # as) ev =
     (case runActions as (ev\<lparr> propagationStopped := True \<rparr>) of
        (fx, ev', r) \<Rightarrow> (NativeStopPropagation (nativeEventId ev) # fx, ev', r))"
| "runActions (PreventDefault # as) ev =
     (case runActions as (ev\<lparr> defaultPrevented := True \<rparr>) of
        (fx, ev', r) \<Rightarrow> (NativePreventDefault (nativeEventId ev) # fx, ev', r))"
| "runActions (ThrowError x # as) ev = ([], ev, Some x)"

definition callHandler ::
  "facade \<Rightarrow> handler \<Rightarrow> synthetic_event \<Rightarrow> effect list \<times> synthetic_event \<times> exn option" where
  "callHandler cur h ev =
     (case runActions (handlerScript h ev) ev of
        (fx, ev', r) \<Rightarrow> (Invoke h cur ev # fx, ev', r))"

text \<open>
  Modelled from the spec: the class \<open>EventRegistry\<close> is not among the sources. The spec
  describes it as a mapping from event type to object identifier to handlers, several
  handlers per pair being possible, visited in registration order; a lookup that finds
  nothing answers no handlers and raises nothing. The registrations are kept as a list of
  (type, facade id, handler) in registration order.
\<close>

type_synonym registry = "(string \<times> nat \<times> handler) list"

definition hasAnyListenersOfType :: "registry \<Rightarrow> string \<Rightarrow> bool" where
  "hasAnyListenersOfType reg ty = list_ex (\<lambda>(t, i, h). t = ty) reg"

definition facadeListenersOfType :: "registry \<Rightarrow> facade \<Rightarrow> string \<Rightarrow> handler list" where
  "facadeListenersOfType reg f ty =
     map (\<lambda>(t, i, h). h) (filter (\<lambda>(t, i, h). t = ty \<and> i = facadeId f) reg)"

text \<open>
  Modelled from the spec: \<open>hasFacadeListenersOfType\<close> is a method of the missing
  \<open>EventRegistry\<close>. As its sibling \<open>forEachFacadeListenerOfType(facade, type, ...)\<close>
  it takes the facade first and the type second, and answers whether the registry holds a
  handler for that pair. The sources call it with a facade, with a string, or with an
  argument left out. Only a facade has a \<open>$facadeId\<close> and only a string is a registered
  type; any other lookup finds nothing.
\<close>

datatype jsarg = ArgFacade facade | ArgString string | ArgUndefined

fun hasFacadeListenersOfType :: "registry \<Rightarrow> jsarg \<Rightarrow> jsarg \<Rightarrow> bool" where
  "hasFacadeListenersOfType reg (ArgFacade f) (ArgString ty) = (facadeListenersOfType reg f ty \<noteq> [])"
| "hasFacadeListenersOfType reg _ _ = False"

text \<open>
  \<open>forEachFacadeListenerOfType(currentTarget, eventType, callHandler, null)\<close>: the handlers
  of the node in order; a throw ends the loop and goes on to the caller.
\<close>

fun forEachFacadeListener ::
  "facade \<Rightarrow> handler list \<Rightarrow> synthetic_event \<Rightarrow> effect list \<times> synthetic_event \<times> exn option" where
  "forEachFacadeListener cur [] ev = ([], ev, None)"
| "forEachFacadeListener cur (h # hs) ev =
     (case callHandler cur h ev of
        (fx, ev', Some x) \<Rightarrow> (fx, ev', Some x)
      | (fx, ev', None) \<Rightarrow>
          (case forEachFacadeListener cur hs ev' of (fx', ev'', r) \<Rightarrow> (fx @ fx', ev'', r)))"

text \<open>The \<open>while (currentTarget && !newEvent.propagationStopped)\<close> loop.\<close>

function bubble ::
  "registry \<Rightarrow> string \<Rightarrow> facade option \<Rightarrow> synthetic_event \<Rightarrow>
     effect list \<times> synthetic_event \<times> exn option" where
  "bubble reg ty None ev = ([], ev, None)"
| "bubble reg ty (Some cur) ev =
     (if propagationStopped ev then ([], ev, None)
      else
        (case forEachFacadeListener cur (facadeListenersOfType reg cur ty)
                (ev\<lparr> currentTarget := Some cur \<rparr>) of
           (fx, ev', Some x) \<Rightarrow> (fx, ev', Some x)
         | (fx, ev', None) \<Rightarrow>
             (case bubble reg ty (parent cur) ev' of (fx', ev'', r) \<Rightarrow> (fx @ fx', ev'', r))))"
  by pat_completeness auto
termination
proof (relation "measure (\<lambda>(reg, ty, f, ev). size_option size f)")
  fix cur :: facade
  show "wf (measure (\<lambda>(reg :: registry, ty :: string, f :: facade option, ev :: synthetic_event).
              size_option size f))"
    by simp
  fix reg :: registry and ty :: string and ev ev' :: synthetic_event
  show "((reg, ty, parent cur, ev'), (reg, ty, Some cur, ev))
          \<in> measure (\<lambda>(reg, ty, f, ev). size_option size f)"
    by (cases cur) simp
qed

definition firePointerEvent ::
  "registry \<Rightarrow> string \<Rightarrow> native_event + synthetic_event \<Rightarrow> facade \<Rightarrow> facade option \<Rightarrow>
     hit option \<Rightarrow> effect list \<times> synthetic_event \<times> exn option" where
  "firePointerEvent reg ty originalEvent targetFacade relatedTargetFacade ex =
     (let newEvent = (case originalEvent of
                        Inr se \<Rightarrow> se
                      | Inl ne \<Rightarrow> SyntheticEvent ne ty targetFacade relatedTargetFacade ex)
      in case bubble reg ty (Some targetFacade) newEvent of
           (fx, ev, r) \<Rightarrow> (Fire ty targetFacade # fx, ev, r))"

function hasEventHandlerInParentTree :: "registry \<Rightarrow> facade option \<Rightarrow> string \<Rightarrow> bool" where
  "hasEventHandlerInParentTree reg None ty = False"
| "hasEventHandlerInParentTree reg (Some targetFacade) ty =
     (if hasFacadeListenersOfType reg (ArgString ty) ArgUndefined then True
      else hasEventHandlerInParentTree reg (parent targetFacade) ty)"
  by pat_completeness auto
termination
proof (relation "measure (\<lambda>(reg, f, ty). size_option size f)")
  fix targetFacade :: facade
  show "wf (measure (\<lambda>(reg :: registry, f :: facade option, ty :: string). size_option size f))"
    by simp
  fix reg :: registry and ty :: string
  show "((reg, parent targetFacade, ty), (reg, Some targetFacade, ty))
          \<in> measure (\<lambda>(reg, f, ty). size_option size f)"
    by (cases targetFacade) simp
qed

section \<open>WorldBaseFacade: the pointer pipeline\<close>

record drag_info =
  draggedFacade :: facade
  dragStartFired :: bool
  dragStartEvent :: synthetic_event

record tap_info =
  tapFacade :: facade
  tapX :: real
  tapY :: real
  startTime :: int
  isDblClick :: bool

text \<open>
  The fields of the world that the pointer code writes: \<open>$hoveredFacade\<close>, \<open>$dragInfo\<close>,
  \<open>$tapInfo\<close>, whether the release listeners of \<open>_toggleDropListeners\<close> are on the
  document, and whether the context menu is enabled (the \<open>killEvent\<close> listener of
  \<open>_enableContextMenu\<close> is off).
\<close>

record world =
  hoveredFacade :: "facade option"
  dragInfo :: "drag_info option"
  tapInfo :: "tap_info option"
  dropListeners :: bool
  contextMenuEnabled :: bool

text \<open>
  What the pointer code reads and does not write: the registry, the abstract method
  \<open>getFacadesAtPosition\<close> (the position already taken relative to the element),
  \<open>facade.isPointerEventTarget && facade.interceptsPointerEvents(registry)\<close> as a
  predicate on facades, and the two lists of event types imported from
  \<open>PointerEventTarget\<close>, which is not among the sources.
\<close>

record config =
  eventRegistry :: registry
  getFacadesAtPosition :: "real \<Rightarrow> real \<Rightarrow> hit list option"
  interceptsPointerEvents :: "facade \<Rightarrow> bool"
  pointerMotionEventTypes :: "string list"
  pointerActionEventTypes :: "string list"

text \<open>
  A listener returns the world as it has left it, what it has done, and the exception it
  ends with, if any. \<open>andThen\<close> is the semicolon: nothing runs after a throw.
\<close>

type_synonym result = "world \<times> effect list \<times> exn option"

definition proceed :: "world \<Rightarrow> result" where
  "proceed w = (w, [], None)"

definition andThen :: "result \<Rightarrow> (world \<Rightarrow> result) \<Rightarrow> result" where
  "andThen r k =
     (case r of
        (w, fx, Some x) \<Rightarrow> (w, fx, Some x)
      | (w, fx, None) \<Rightarrow> (case k w of (w', fx', r') \<Rightarrow> (w', fx @ fx', r')))"

text \<open>\<open>this._firePointerEvent(type, e, target, related, extra)\<close> on a native event.\<close>

definition fire ::
  "config \<Rightarrow> string \<Rightarrow> native_event \<Rightarrow> facade \<Rightarrow> facade option \<Rightarrow> hit option \<Rightarrow> world \<Rightarrow> result" where
  "fire cfg ty e tgt related ex w =
     (case firePointerEvent (eventRegistry cfg) ty (Inl e) tgt related ex of
        (fx, ev, r) \<Rightarrow> (w, fx, r))"

text \<open>
  \<open>getFacadesAtEvent\<close>: more than one touch gives null; \<open>e.touches[0] || e.changedTouches[0]\<close>
  is undefined when both lists are empty, and reading its \<open>clientX\<close> then throws.
\<close>

fun getFacadesAtEvent :: "config \<Rightarrow> native_event \<Rightarrow> exn + hit list option" where
  "getFacadesAtEvent cfg (MouseEvent i t x y el) = Inr (getFacadesAtPosition cfg x y)"
| "getFacadesAtEvent cfg (TouchEvent i t ts cs el) =
     (if length ts > 1 then Inr None
      else (case (case ts of p # _ \<Rightarrow> Some p
                  | [] \<Rightarrow> (case cs of c # _ \<Rightarrow> Some c | [] \<Rightarrow> None)) of
              None \<Rightarrow> Inl TypeError
            | Some posInfo \<Rightarrow>
                Inr (getFacadesAtPosition cfg (touchClientX posInfo) (touchClientY posInfo))))"

definition findHoverTarget :: "config \<Rightarrow> native_event \<Rightarrow> exn + hit option" where
  "findHoverTarget cfg e =
     (case getFacadesAtEvent cfg e of
        Inl x \<Rightarrow> Inl x
      | Inr None \<Rightarrow> Inr None
      | Inr (Some allHits) \<Rightarrow>
          Inr (find (\<lambda>h. interceptsPointerEvents cfg (hfacade h)) (sortHits allHits)))"

subsection \<open>\<open>_onPointerMotionEvent\<close>\<close>

text \<open>\<open>pointerMotionEventTypes.some(this.eventRegistry.hasAnyListenersOfType)\<close>\<close>

definition motionListened :: "config \<Rightarrow> bool" where
  "motionListened cfg = list_ex (hasAnyListenersOfType (eventRegistry cfg)) (pointerMotionEventTypes cfg)"

text \<open>The block \<open>if (dragInfo) { ... }\<close>.\<close>

definition dragStep :: "config \<Rightarrow> native_event \<Rightarrow> world \<Rightarrow> result" where
  "dragStep cfg e w =
     (case dragInfo w of
        None \<Rightarrow> proceed w
      | Some d \<Rightarrow>
          andThen
            (if \<not> dragStartFired d then
               (case firePointerEvent (eventRegistry cfg) ''dragstart'' (Inr (dragStartEvent d))
                       (draggedFacade d) None None of
                  (fx, ev, Some x) \<Rightarrow> (w\<lparr> dragInfo := Some (d\<lparr> dragStartEvent := ev \<rparr>) \<rparr>, fx, Some x)
                | (fx, ev, None) \<Rightarrow>
                    (w\<lparr> dragInfo := Some (d\<lparr> dragStartEvent := ev, dragStartFired := True \<rparr>) \<rparr>,
                     fx, None))
             else proceed w)
            (fire cfg ''drag'' e (draggedFacade d) None None))"

text \<open>\<open>(e.type === 'mouseout' || isTouchEndOrCancel(e)) ? null : this._findHoverTarget(e)\<close>\<close>

definition hoverInfoFor :: "config \<Rightarrow> native_event \<Rightarrow> exn + hit option" where
  "hoverInfoFor cfg e =
     (if eventType e = ''mouseout'' \<or> isTouchEndOrCancel e then Inr None
      else findHoverTarget cfg e)"

text \<open>The hover block; \<open>dragging\<close> is the truth of the local \<open>dragInfo\<close>.\<close>

definition hoverStep :: "config \<Rightarrow> native_event \<Rightarrow> bool \<Rightarrow> world \<Rightarrow> result" where
  "hoverStep cfg e dragging w0 =
     (let lastHovered = hoveredFacade w0 in
      case hoverInfoFor cfg e of
        Inl x \<Rightarrow> (w0, [], Some x)
      | Inr hoverInfo \<Rightarrow>
          (let hovered = map_option hfacade hoverInfo in
           andThen
             (andThen (proceed (w0\<lparr> hoveredFacade := hovered \<rparr>))
                (\<lambda>w. if hovered \<noteq> lastHovered then
                        andThen
                          (case lastHovered of
                             None \<Rightarrow> proceed w
                           | Some l \<Rightarrow>
                               andThen (fire cfg ''mouseout'' e l hovered hoverInfo w)
                                 (\<lambda>w. if dragging then fire cfg ''dragleave'' e l hovered hoverInfo w
                                       else proceed w))
                          (\<lambda>w. case hovered of
                                  None \<Rightarrow> proceed w
                                | Some h \<Rightarrow>
                                    andThen (fire cfg ''mouseover'' e h lastHovered hoverInfo w)
                                      (\<lambda>w. if dragging
                                            then fire cfg ''dragenter'' e h lastHovered hoverInfo w
                                            else proceed w))
                      else proceed w))
             (\<lambda>w. case hovered of
                     None \<Rightarrow> proceed w
                   | Some h \<Rightarrow>
                       andThen (fire cfg ''mousemove'' e h None hoverInfo w)
                         (\<lambda>w. if dragging then fire cfg ''dragover'' e h None hoverInfo w
                               else proceed w))))"

text \<open>
  \<open>Math.sqrt(Math.pow(dx, 2) + Math.pow(dy, 2)) > TAP_DISTANCE_THRESHOLD\<close>, over the
  reals.
\<close>

definition movedPastThreshold :: "real \<Rightarrow> real \<Rightarrow> bool" where
  "movedPastThreshold dx dy = (sqrt (dx\<^sup>2 + dy\<^sup>2) > TAP_DISTANCE_THRESHOLD)"

text \<open>Cancel the tap gesture when a touch moves past the threshold.\<close>

definition tapCancelStep :: "native_event \<Rightarrow> world \<Rightarrow> world" where
  "tapCancelStep e w =
     (case tapInfo w of
        None \<Rightarrow> w
      | Some tap \<Rightarrow>
          if eventType e = ''touchmove'' then
            (case changedTouches e of
               [] \<Rightarrow> w
             | t # _ \<Rightarrow>
                 if movedPastThreshold (touchClientX t - tapX tap) (touchClientY t - tapY tap)
                 then w\<lparr> tapInfo := None \<rparr> else w)
          else w)"

definition onPointerMotionEvent :: "config \<Rightarrow> native_event \<Rightarrow> world \<Rightarrow> result" where
  "onPointerMotionEvent cfg e w =
     andThen
       (if motionListened cfg
        then andThen (dragStep cfg e w) (hoverStep cfg e (dragInfo w \<noteq> None))
        else proceed w)
       (\<lambda>w. proceed (tapCancelStep e w))"

subsection \<open>\<open>_onPointerActionEvent\<close>\<close>

definition actionListened :: "config \<Rightarrow> bool" where
  "actionListened cfg =
     (hasAnyListenersOfType (eventRegistry cfg) ''dragstart'' \<or>
      list_ex (hasAnyListenersOfType (eventRegistry cfg)) (pointerActionEventTypes cfg))"

text \<open>The tap block; \<open>now\<close> is the reading of \<open>Date.now()\<close>.\<close>

definition tapStep ::
  "config \<Rightarrow> int \<Rightarrow> native_event \<Rightarrow> facade \<Rightarrow> hit option \<Rightarrow> world \<Rightarrow> result" where
  "tapStep cfg now e facade hoverInfo w =
     (if hasEventHandlerInParentTree (eventRegistry cfg) (Some facade) ''click'' \<or>
         hasEventHandlerInParentTree (eventRegistry cfg) (Some facade) ''dblclick''
      then
        (let tap0 = tapInfo w in
         if eventType e = ''touchstart'' \<and> length (touches e) = 1 then
           proceed (w\<lparr> tapInfo := Some
             \<lparr> tapFacade = facade,
               tapX = touchClientX (hd (touches e)),
               tapY = touchClientY (hd (touches e)),
               startTime = now,
               isDblClick = (case tap0 of None \<Rightarrow> False
                             | Some t \<Rightarrow> now - startTime t < TAP_DBLCLICK_MAX_DUR) \<rparr> \<rparr>)
         else
           (case tap0 of
              None \<Rightarrow> proceed w
            | Some t \<Rightarrow>
                if tapFacade t = facade \<and> eventType e = ''touchend'' \<and>
                   length (touches e) = 0 \<and> length (changedTouches e) = 1 \<and>
                   now - startTime t < TAP_GESTURE_MAX_DUR
                then andThen (fire cfg ''click'' e facade None hoverInfo w)
                       (\<lambda>w. if isDblClick t then fire cfg ''dblclick'' e facade None hoverInfo w
                             else proceed w)
                else proceed w))
      else proceed w)"

text \<open>The drag preparation block.\<close>

definition dragInitStep :: "native_event \<Rightarrow> facade \<Rightarrow> world \<Rightarrow> result" where
  "dragInitStep e facade w =
     (if onDragStart facade \<and> (eventType e = ''mousedown'' \<or> eventType e = ''touchstart'') then
        proceed (w\<lparr> dragInfo := Some
                      \<lparr> draggedFacade = facade, dragStartFired = False,
                        dragStartEvent = SyntheticEvent e ''dragstart'' facade None None \<rparr>,
                    dropListeners := True \<rparr>)
      else proceed w)"

text \<open>The guarded block from \<open>_findHoverTarget\<close> to \<open>e.preventDefault()\<close>.\<close>

definition actionStep :: "config \<Rightarrow> int \<Rightarrow> native_event \<Rightarrow> world \<Rightarrow> result" where
  "actionStep cfg now e w =
     (if actionListened cfg then
        (case findHoverTarget cfg e of
           Inl x \<Rightarrow> (w, [], Some x)
         | Inr hoverInfo \<Rightarrow>
             andThen
               (case map_option hfacade hoverInfo of
                  None \<Rightarrow> proceed w
                | Some facade \<Rightarrow>
                    andThen (fire cfg (mappedActionType e) e facade None hoverInfo w)
                      (\<lambda>w. andThen (tapStep cfg now e facade hoverInfo w) (dragInitStep e facade)))
               (\<lambda>w. (w, [NativePreventDefault (eventId e)], None)))
      else proceed w)"

definition onPointerActionEvent :: "config \<Rightarrow> int \<Rightarrow> native_event \<Rightarrow> world \<Rightarrow> result" where
  "onPointerActionEvent cfg now e w =
     andThen
       (if eventType e = ''touchstart'' then
          andThen (if length (touches e) = 1 then onPointerMotionEvent cfg e w else proceed w)
            (\<lambda>w. proceed (w\<lparr> contextMenuEnabled := False \<rparr>))
        else proceed w)
       (\<lambda>w. andThen (actionStep cfg now e w)
          (\<lambda>w. if isTouchEndOrCancel e then
                  andThen
                    (if length (changedTouches e) = 1 then onPointerMotionEvent cfg e w
                     else proceed w)
                    (\<lambda>w. proceed (w\<lparr> contextMenuEnabled := True \<rparr>))
                else proceed w))"

subsection \<open>\<open>_onDropEvent\<close>\<close>

definition onDropEvent :: "config \<Rightarrow> native_event \<Rightarrow> world \<Rightarrow> result" where
  "onDropEvent cfg e w =
     (case dragInfo w of
        None \<Rightarrow> proceed w
      | Some d \<Rightarrow>
          (case (if targetIsElement e then findHoverTarget cfg e else Inr None) of
             Inl x \<Rightarrow> (w, [], Some x)
           | Inr hoverInfo \<Rightarrow>
               andThen
                 (case map_option hfacade hoverInfo of
                    None \<Rightarrow> proceed w
                  | Some targetFacade \<Rightarrow> fire cfg ''drop'' e targetFacade None hoverInfo w)
                 (\<lambda>w. andThen (fire cfg ''dragend'' e (draggedFacade d) None hoverInfo w)
                    (\<lambda>w. proceed (w\<lparr> dropListeners := False, dragInfo := None \<rparr>)))))"

section \<open>A small scene for evaluation\<close>

text \<open>
  A root, a panel under it, a draggable button under the panel, and a label under the
  root. Positions with \<open>x < 200\<close> hit the button, positions with \<open>200 \<le> x < 400\<close> hit
  the label, other positions hit nothing.
\<close>

definition rootF :: facade where "rootF = Facade 1 None False"
definition panelF :: facade where "panelF = Facade 2 (Some rootF) False"
definition buttonF :: facade where "buttonF = Facade 3 (Some panelF) True"
definition labelF :: facade where "labelF = Facade 4 (Some rootF) False"

definition quiet :: "nat \<Rightarrow> handler" where
  "quiet n = \<lparr> handlerId = n, handlerScript = (\<lambda>ev. []) \<rparr>"

definition stopper :: "nat \<Rightarrow> handler" where
  "stopper n = \<lparr> handlerId = n, handlerScript = (\<lambda>ev. [StopPropagation]) \<rparr>"

definition thrower :: "nat \<Rightarrow> handler" where
  "thrower n = \<lparr> handlerId = n, handlerScript = (\<lambda>ev. [ThrowError (HandlerError n)]) \<rparr>"

definition hitOn :: "facade \<Rightarrow> real \<Rightarrow> hit" where
  "hitOn f d = \<lparr> hfacade = f, distance = d, distanceBias = None \<rparr>"

definition samplePick :: "real \<Rightarrow> real \<Rightarrow> hit list option" where
  "samplePick x y =
     (if x < 200 then Some [hitOn buttonF 5]
      else if x < 400 then Some [hitOn labelF 7]
      else Some [])"

definition sampleRegistry :: registry where
  "sampleRegistry =
     [(''click'', 3, quiet 10), (''mouseover'', 3, quiet 11), (''mouseout'', 3, quiet 12),
      (''mouseover'', 4, quiet 13), (''mousemove'', 1, quiet 14), (''dragstart'', 3, quiet 15),
      (''drag'', 3, quiet 16), (''drop'', 4, quiet 17), (''dragend'', 3, quiet 18),
      (''mousedown'', 3, quiet 19)]"

definition sampleConfig :: config where
  "sampleConfig =
     \<lparr> eventRegistry = sampleRegistry,
       getFacadesAtPosition = samplePick,
       interceptsPointerEvents = (\<lambda>f. True),
       pointerMotionEventTypes =
         [''mouseover'', ''mouseout'', ''mousemove'', ''dragstart'', ''drag'', ''dragenter'',
          ''dragover'', ''dragleave''],
       pointerActionEventTypes =
         [''mousedown'', ''mouseup'', ''click'', ''dblclick'', ''wheel'', ''drop'', ''dragend''] \<rparr>"

definition idleWorld :: world where
  "idleWorld =
     \<lparr> hoveredFacade = None, dragInfo = None, tapInfo = None,
       dropListeners = False, contextMenuEnabled = True \<rparr>"

text \<open>What a log shows of the dispatches: the type and target of each, in order.\<close>

fun fires :: "effect list \<Rightarrow> (string \<times> facade) list" where
  "fires [] = []"
| "fires (Fire ty f # fx) = (ty, f) # fires fx"
| "fires (_ # fx) = fires fx"

text \<open>Registries for the walk: a stopping handler on the panel, a throwing one on the button.\<close>

definition stoppingRegistry :: registry where
  "stoppingRegistry =
     [(''click'', 3, quiet 1), (''click'', 2, stopper 2), (''click'', 2, quiet 3),
      (''click'', 1, quiet 4), (''mouseup'', 3, quiet 5)]"

definition throwingRegistry :: registry where
  "throwingRegistry =
     [(''click'', 3, quiet 1), (''click'', 3, thrower 2), (''click'', 3, quiet 3),
      (''click'', 2, quiet 4)]"

definition sampleClick :: native_event where
  "sampleClick = MouseEvent 1 click 10 10 True"

text \<open>The pointer is over the button and moves on to the label.\<close>

definition overButton :: world where
  "overButton = idleWorld\<lparr> hoveredFacade := Some buttonF \<rparr>"

definition moveToLabel :: native_event where
  "moveToLabel = MouseEvent 3 mousemove 210 10 True"

text \<open>
  A tap on the label, which has a click listener: touch-start at (300, 100), touch-end at
  (302, 101) 150 ms later. No listener of a motion type is registered.
\<close>

definition tapConfig :: config where
  "tapConfig = sampleConfig\<lparr> eventRegistry := [(''click'', 4, quiet 20)] \<rparr>"

definition tapStart :: native_event where
  "tapStart = TouchEvent 1 touchstart [\<lparr> touchClientX = 300, touchClientY = 100 \<rparr>]
                [\<lparr> touchClientX = 300, touchClientY = 100 \<rparr>] True"

definition tapEnd :: native_event where
  "tapEnd = TouchEvent 2 touchend [] [\<lparr> touchClientX = 302, touchClientY = 101 \<rparr>] True"

text \<open>A press on empty space, and a config in which only the root listens for clicks.\<close>

definition missDown :: native_event where
  "missDown = MouseEvent 5 mousedown 500 10 True"

text \<open>Only the button listens for clicks; only hover listeners are registered.\<close>

definition buttonClickConfig :: config where
  "buttonClickConfig = sampleConfig\<lparr> eventRegistry := [(''click'', 3, quiet 20)] \<rparr>"

definition hoverOnlyConfig :: config where
  "hoverOnlyConfig = sampleConfig\<lparr> eventRegistry := [(''mouseover'', 3, quiet 11)] \<rparr>"

text \<open>A drag of the button: press on it, two moves over the label, release there.\<close>

definition pressButton :: native_event where
  "pressButton = MouseEvent 10 mousedown 10 10 True"

definition dragMoves :: "native_event list" where
  "dragMoves = [MouseEvent 11 mousemove 210 10 True, MouseEvent 12 mousemove 220 10 True]"

definition releaseOnLabel :: native_event where
  "releaseOnLabel = MouseEvent 13 mouseup 220 10 True"

definition afterMoves :: "native_event list" where
  "afterMoves = [MouseEvent 14 mousemove 10 10 True]"

section \<open>The dispatches the properties speak of\<close>

text \<open>The log and the outcome of one dispatch on a native event.\<close>

definition dispatchLog ::
  "config \<Rightarrow> native_event \<Rightarrow> hit option \<Rightarrow> string \<times> facade \<times> facade option \<Rightarrow> effect list" where
  "dispatchLog cfg e ex d =
     (case d of (ty, tgt, related) \<Rightarrow>
        fst (firePointerEvent (eventRegistry cfg) ty (Inl e) tgt related ex))"

definition dispatchThrows ::
  "config \<Rightarrow> native_event \<Rightarrow> hit option \<Rightarrow> string \<times> facade \<times> facade option \<Rightarrow> exn option" where
  "dispatchThrows cfg e ex d =
     (case d of (ty, tgt, related) \<Rightarrow>
        snd (snd (firePointerEvent (eventRegistry cfg) ty (Inl e) tgt related ex)))"

text \<open>Dispatches made one after the other, each one completed before the next begins.\<close>

fun fireAll ::
  "config \<Rightarrow> native_event \<Rightarrow> hit option \<Rightarrow> (string \<times> facade \<times> facade option) list \<Rightarrow> world \<Rightarrow> result" where
  "fireAll cfg e ex [] w = proceed w"
| "fireAll cfg e ex ((ty, tgt, related) # ds) w =
     andThen (fire cfg ty e tgt related ex w) (fireAll cfg e ex ds)"

text \<open>
  The hover dispatches as the specification words them, each with type, target and related
  target: when the hover target has changed, \<open>mouseout\<close> (and \<open>dragleave\<close> during a drag)
  on the previous target if there is one, then \<open>mouseover\<close> (and \<open>dragenter\<close>) on the new
  target if there is one; then, when there is a hover target, \<open>mousemove\<close> (and
  \<open>dragover\<close> during a drag) on it.
\<close>

definition hoverDispatches ::
  "facade option \<Rightarrow> facade option \<Rightarrow> bool \<Rightarrow> (string \<times> facade \<times> facade option) list" where
  "hoverDispatches lastHovered hovered dragging =
     (if hovered \<noteq> lastHovered then
        (case lastHovered of
           None \<Rightarrow> []
         | Some l \<Rightarrow> (''mouseout'', l, hovered) #
                     (if dragging then [(''dragleave'', l, hovered)] else [])) @
        (case hovered of
           None \<Rightarrow> []
         | Some h \<Rightarrow> (''mouseover'', h, lastHovered) #
                     (if dragging then [(''dragenter'', h, lastHovered)] else []))
      else []) @
     (case hovered of
        None \<Rightarrow> []
      | Some h \<Rightarrow> (''mousemove'', h, None) #
                  (if dragging then [(''dragover'', h, None)] else []))"

text \<open>The parent chain of a facade, from the facade upward.\<close>

function chainFrom :: "facade option \<Rightarrow> facade list" where
  "chainFrom None = []"
| "chainFrom (Some f) = f # chainFrom (parent f)"
  by pat_completeness auto
termination
proof (relation "measure (size_option size)")
  show "wf (measure (size_option (size :: facade \<Rightarrow> nat)))"
    by simp
  fix f :: facade
  show "(parent f, Some f) \<in> measure (size_option size)"
    by (cases f) simp
qed

text \<open>The handler calls of a log, in order: the handler and its \<open>this\<close>.\<close>

fun invocations :: "effect list \<Rightarrow> (handler \<times> facade) list" where
  "invocations [] = []"
| "invocations (Invoke h cur ev # fx) = (h, cur) # invocations fx"
| "invocations (_ # fx) = invocations fx"

text \<open>
  The drag dispatches of a motion event as the specification words them: with a drag in
  progress, \<open>dragstart\<close> on the dragged facade if it has not been fired yet, then \<open>drag\<close>.
\<close>

definition dragDispatches :: "drag_info option \<Rightarrow> (string \<times> facade) list" where
  "dragDispatches di =
     (case di of
        None \<Rightarrow> []
      | Some d \<Rightarrow> (if dragStartFired d then [] else [(''dragstart'', draggedFacade d)]) @
                  [(''drag'', draggedFacade d)])"

definition dispatchHead :: "string \<times> facade \<times> facade option \<Rightarrow> string \<times> facade" where
  "dispatchHead d = (case d of (ty, tgt, related) \<Rightarrow> (ty, tgt))"

text \<open>
  The target or one of its ancestors has a registered listener of the type, as the
  specification words the condition for tap recognition.
\<close>

definition listenerInChain :: "registry \<Rightarrow> facade \<Rightarrow> string \<Rightarrow> bool" where
  "listenerInChain reg f ty =
     list_ex (\<lambda>n. facadeListenersOfType reg n ty \<noteq> []) (chainFrom (Some f))"

text \<open>
  A listener outcome keeps a condition on the world and stays within a condition on what
  it does.
\<close>

definition keeps :: "(world \<Rightarrow> bool) \<Rightarrow> (effect \<Rightarrow> bool) \<Rightarrow> result \<Rightarrow> bool" where
  "keeps I E res = (I (fst res) \<and> list_all E (fst (snd res)))"

text \<open>Conditions on one effect: it is not a dispatch of a type outside a list; it is not a
  \<open>preventDefault\<close> call on a native event.\<close>

definition firesWithin :: "string list \<Rightarrow> effect \<Rightarrow> bool" where
  "firesWithin tys eff = (case eff of Fire ty f \<Rightarrow> ty \<in> set tys | _ \<Rightarrow> True)"

definition notPrevent :: "effect \<Rightarrow> bool" where
  "notPrevent eff = (case eff of NativePreventDefault i \<Rightarrow> False | _ \<Rightarrow> True)"

definition noHandlerPrevents :: "registry \<Rightarrow> bool" where
  "noHandlerPrevents reg =
     list_all (\<lambda>(t, i, h). \<forall>ev. PreventDefault \<notin> set (handlerScript h ev)) reg"

definition motionTypes :: "string list" where
  "motionTypes = [''dragstart'', ''drag'', ''mouseout'', ''dragleave'', ''mouseover'',
                  ''dragenter'', ''mousemove'', ''dragover'']"

text \<open>
  Motion events delivered one after the other, each processed to its end.
\<close>

fun runMotions :: "config \<Rightarrow> native_event list \<Rightarrow> world \<Rightarrow> result" where
  "runMotions cfg [] w = proceed w"
| "runMotions cfg (e # es) w = andThen (onPointerMotionEvent cfg e w) (runMotions cfg es)"

text \<open>
  The dispatches of the drag lifecycle in a log, and all the types of drag events.
\<close>

definition dragLifecycleTypes :: "string list" where
  "dragLifecycleTypes = [''dragstart'', ''drag'', ''drop'', ''dragend'']"

definition dragTypes :: "string list" where
  "dragTypes = [''dragstart'', ''drag'', ''dragenter'', ''dragover'', ''dragleave'', ''drop'',
                ''dragend'']"

definition lifecycle :: "effect list \<Rightarrow> (string \<times> facade) list" where
  "lifecycle fx = filter (\<lambda>p. fst p \<in> set dragLifecycleTypes) (fires fx)"

text \<open>
  The drop target of a release: resolved only when the release is on the element itself.
\<close>

definition dropTarget :: "config \<Rightarrow> native_event \<Rightarrow> facade option" where
  "dropTarget cfg e =
     (if targetIsElement e then
        (case findHoverTarget cfg e of Inr (Some h) \<Rightarrow> Some (hfacade h) | _ \<Rightarrow> None)
      else None)"

text \<open>The worlds of the sample drag: after the press, after the moves, after the release.\<close>

definition pressedWorld :: world where
  "pressedWorld = fst (onPointerActionEvent sampleConfig 0 pressButton idleWorld)"

definition movedWorld :: world where
  "movedWorld = fst (runMotions sampleConfig dragMoves pressedWorld)"

definition releasedWorld :: world where
  "releasedWorld = fst (onDropEvent sampleConfig releaseOnLabel movedWorld)"

section \<open>The pointer pipeline: basic facts\<close>

lemma movedPastThreshold_code [code]:
  "movedPastThreshold dx dy \<longleftrightarrow> dx\<^sup>2 + dy\<^sup>2 > 100"
proof -
  have "sqrt (dx\<^sup>2 + dy\<^sup>2) > sqrt 100 \<longleftrightarrow> dx\<^sup>2 + dy\<^sup>2 > 100"
    by (rule real_sqrt_less_iff)
  moreover have "sqrt 100 = (10::real)"
    using real_sqrt_abs [of 10] by simp
  ultimately show ?thesis
    by (simp add: movedPastThreshold_def TAP_DISTANCE_THRESHOLD_def)
qed

lemma andThen_proceed [simp]: "andThen (proceed w) k = k w"
  by (simp add: andThen_def proceed_def split: prod.splits)

lemma andThen_proceed_right [simp]: "andThen r proceed = r"
  by (simp add: andThen_def proceed_def split: prod.splits option.splits)

lemma andThen_throw [simp]: "andThen (w, fx, Some x) k = (w, fx, Some x)"
  by (simp add: andThen_def)

lemma andThen_ok: "andThen (w, fx, None) k = (case k w of (w', fx', r') \<Rightarrow> (w', fx @ fx', r'))"
  by (simp add: andThen_def)

lemma andThen_assoc: "andThen (andThen r k1) k2 = andThen r (\<lambda>w. andThen (k1 w) k2)"
  by (simp add: andThen_def split: prod.splits option.splits)

lemma andThen_NoneE:
  assumes "andThen r k = (w', fx, None)"
  obtains w1 fx1 fx2 where "r = (w1, fx1, None)" "k w1 = (w', fx2, None)" "fx = fx1 @ fx2"
  using assms by (auto simp: andThen_def split: prod.splits option.splits)

lemma fire_eq:
  "fire cfg ty e tgt related ex w =
     (w, dispatchLog cfg e ex (ty, tgt, related), dispatchThrows cfg e ex (ty, tgt, related))"
  by (simp add: fire_def dispatchLog_def dispatchThrows_def split: prod.splits)

lemma fireAll_Nil_fun: "fireAll cfg e ex [] = proceed"
  by (rule ext) simp

lemma fireAll_Cons_fun:
  "fireAll cfg e ex ((ty, tgt, related) # ds) =
     (\<lambda>w. andThen (fire cfg ty e tgt related ex w) (fireAll cfg e ex ds))"
  by (rule ext) simp

lemma fireAll_append:
  "fireAll cfg e ex (ds @ ds') = (\<lambda>w. andThen (fireAll cfg e ex ds w) (fireAll cfg e ex ds'))"
proof (induction ds)
  case Nil
  show ?case by (simp add: fun_eq_iff)
next
  case (Cons d ds)
  obtain ty tgt related where d: "d = (ty, tgt, related)" by (cases d) auto
  show ?case by (rule ext) (simp add: d Cons.IH andThen_assoc)
qed

lemma fireAll_completes:
  "fireAll cfg e ex ds w = (w', fx, None) \<Longrightarrow>
     w' = w \<and> fx = concat (map (dispatchLog cfg e ex) ds) \<and>
     list_all (\<lambda>d. dispatchThrows cfg e ex d = None) ds"
proof (induction ds arbitrary: fx)
  case Nil
  then show ?case by (simp add: proceed_def)
next
  case (Cons d ds)
  obtain ty tgt related where d: "d = (ty, tgt, related)" by (cases d) auto
  from Cons.prems have run:
    "andThen (fire cfg ty e tgt related ex w) (fireAll cfg e ex ds) = (w', fx, None)"
    by (simp add: d)
  from run obtain w1 fx1 fx2 where
    f: "fire cfg ty e tgt related ex w = (w1, fx1, None)" and
    rest: "fireAll cfg e ex ds w1 = (w', fx2, None)" and fx: "fx = fx1 @ fx2"
    by (rule andThen_NoneE)
  from f have w1: "w1 = w" and fx1: "fx1 = dispatchLog cfg e ex d"
    and ok: "dispatchThrows cfg e ex d = None"
    by (simp_all add: fire_eq d)
  from Cons.IH [of fx2] rest w1 have
    "w' = w \<and> fx2 = concat (map (dispatchLog cfg e ex) ds) \<and>
     list_all (\<lambda>d. dispatchThrows cfg e ex d = None) ds"
    by simp
  then show ?case using fx fx1 ok by simp
qed

lemma hoverStep_fireAll:
  assumes "hoverInfoFor cfg e = Inr hoverInfo"
  shows "hoverStep cfg e dragging w =
           fireAll cfg e hoverInfo
             (hoverDispatches (hoveredFacade w) (map_option hfacade hoverInfo) dragging)
             (w\<lparr> hoveredFacade := map_option hfacade hoverInfo \<rparr>)"
  using assms
  by (cases "hoveredFacade w"; cases hoverInfo; cases dragging)
     (simp_all add: hoverStep_def hoverDispatches_def Let_def andThen_assoc
        fireAll_Nil_fun fireAll_Cons_fun)

section \<open>Dispatch: the bubbling walk\<close>

lemma invocations_append [simp]: "invocations (fx @ fx') = invocations fx @ invocations fx'"
  by (induction fx rule: invocations.induct) auto

lemma fires_append [simp]: "fires (fx @ fx') = fires fx @ fires fx'"
  by (induction fx rule: fires.induct) auto

lemma runActions_facts:
  assumes "runActions acts ev = (fx, ev', r)"
  shows "invocations fx = [] \<and> fires fx = [] \<and>
         (\<forall>h c ev0. Invoke h c ev0 \<notin> set fx) \<and>
         evTarget ev' = evTarget ev \<and> currentTarget ev' = currentTarget ev \<and>
         (propagationStopped ev' \<longleftrightarrow>
            propagationStopped ev \<or> (\<exists>i. NativeStopPropagation i \<in> set fx)) \<and>
         (\<forall>x. r = Some x \<longrightarrow> ThrowError x \<in> set acts) \<and>
         (r = None \<longrightarrow> (\<forall>x. ThrowError x \<notin> set acts))"
  using assms
proof (induction acts ev arbitrary: fx ev' r rule: runActions.induct)
  case (1 ev)
  then show ?case by simp
next
  case (2 as ev)
  obtain fx0 ev0 r0 where rec: "runActions as (ev\<lparr> propagationStopped := True \<rparr>) = (fx0, ev0, r0)"
    by (cases "runActions as (ev\<lparr> propagationStopped := True \<rparr>)") auto
  with "2.prems" have eq: "fx = NativeStopPropagation (nativeEventId ev) # fx0" "ev' = ev0" "r = r0"
    by simp_all
  from "2.IH" [OF rec] show ?case unfolding eq by auto
next
  case (3 as ev)
  obtain fx0 ev0 r0 where rec: "runActions as (ev\<lparr> defaultPrevented := True \<rparr>) = (fx0, ev0, r0)"
    by (cases "runActions as (ev\<lparr> defaultPrevented := True \<rparr>)") auto
  with "3.prems" have eq: "fx = NativePreventDefault (nativeEventId ev) # fx0" "ev' = ev0" "r = r0"
    by simp_all
  from "3.IH" [OF rec] show ?case unfolding eq by auto
next
  case (4 x as ev)
  then show ?case by auto
qed

lemma callHandler_facts:
  assumes "callHandler cur h ev = (fx, ev', r)"
  shows "\<exists>calls. fx = Invoke h cur ev # calls \<and> invocations calls = [] \<and> fires calls = [] \<and>
           (\<forall>h c ev0. Invoke h c ev0 \<notin> set calls) \<and>
           evTarget ev' = evTarget ev \<and> currentTarget ev' = currentTarget ev \<and>
           (propagationStopped ev' \<longleftrightarrow>
              propagationStopped ev \<or> (\<exists>i. NativeStopPropagation i \<in> set calls)) \<and>
           (\<forall>x. r = Some x \<longrightarrow> ThrowError x \<in> set (handlerScript h ev)) \<and>
           (r = None \<longrightarrow> (\<forall>x. ThrowError x \<notin> set (handlerScript h ev)))"
proof -
  obtain calls ev0 r0 where run: "runActions (handlerScript h ev) ev = (calls, ev0, r0)"
    by (cases "runActions (handlerScript h ev) ev") auto
  with assms have eq: "fx = Invoke h cur ev # calls" "ev' = ev0" "r = r0"
    by (simp_all add: callHandler_def)
  from runActions_facts [OF run] show ?thesis unfolding eq by blast
qed

text \<open>
  The handlers of one node: each call is on that node and sees the target and the current
  target the event came with; without a throw every handler of the node is called.
\<close>

lemma forEach_facts:
  assumes "forEachFacadeListener cur hs ev = (fx, ev', r)"
  shows "fires fx = [] \<and>
         (\<forall>h c ev0. Invoke h c ev0 \<in> set fx \<longrightarrow>
            c = cur \<and> h \<in> set hs \<and> evTarget ev0 = evTarget ev \<and>
            currentTarget ev0 = currentTarget ev) \<and>
         evTarget ev' = evTarget ev \<and> currentTarget ev' = currentTarget ev \<and>
         (propagationStopped ev' \<longleftrightarrow>
            propagationStopped ev \<or> (\<exists>i. NativeStopPropagation i \<in> set fx)) \<and>
         (r = None \<longrightarrow> invocations fx = map (\<lambda>h. (h, cur)) hs) \<and>
         (\<forall>hc \<in> set (invocations fx). snd hc = cur)"
  using assms
proof (induction hs arbitrary: ev fx ev' r)
  case Nil
  then show ?case by simp
next
  case (Cons h hs)
  obtain fx1 ev1 r1 where c: "callHandler cur h ev = (fx1, ev1, r1)"
    by (cases "callHandler cur h ev") auto
  from callHandler_facts [OF c] obtain calls where
    fx1: "fx1 = Invoke h cur ev # calls" and calls: "invocations calls = []" "fires calls = []"
      "\<forall>h c ev0. Invoke h c ev0 \<notin> set calls" and
    same: "evTarget ev1 = evTarget ev" "currentTarget ev1 = currentTarget ev" and
    stop: "propagationStopped ev1 \<longleftrightarrow>
             propagationStopped ev \<or> (\<exists>i. NativeStopPropagation i \<in> set calls)"
    by blast
  show ?case
  proof (cases r1)
    case (Some x)
    with Cons.prems c have eq: "fx = fx1" "ev' = ev1" "r = Some x" by simp_all
    show ?thesis unfolding eq fx1 using calls same stop by auto
  next
    case None
    obtain fx2 ev2 r2 where rest: "forEachFacadeListener cur hs ev1 = (fx2, ev2, r2)"
      by (cases "forEachFacadeListener cur hs ev1") auto
    with Cons.prems c None have eq: "fx = fx1 @ fx2" "ev' = ev2" "r = r2" by simp_all
    from Cons.IH [OF rest] show ?thesis unfolding eq fx1 using calls same stop by auto
  qed
qed

lemma forEach_throw:
  assumes "forEachFacadeListener cur hs ev = (fx, ev', Some x)"
  shows "\<exists>pre h ev0 calls. fx = pre @ Invoke h cur ev0 # calls \<and> invocations calls = [] \<and>
           ThrowError x \<in> set (handlerScript h ev0)"
  using assms
proof (induction hs arbitrary: ev fx ev')
  case Nil
  then show ?case by simp
next
  case (Cons h hs)
  obtain fx1 ev1 r1 where c: "callHandler cur h ev = (fx1, ev1, r1)"
    by (cases "callHandler cur h ev") auto
  from callHandler_facts [OF c] obtain calls where
    fx1: "fx1 = Invoke h cur ev # calls" and calls: "invocations calls = []" and
    thr: "\<forall>y. r1 = Some y \<longrightarrow> ThrowError y \<in> set (handlerScript h ev)"
    by blast
  show ?case
  proof (cases r1)
    case (Some y)
    with Cons.prems c have eq: "fx = fx1" "y = x" by simp_all
    have "fx = [] @ Invoke h cur ev # calls" using eq fx1 by simp
    moreover have "ThrowError x \<in> set (handlerScript h ev)" using thr Some eq by simp
    ultimately show ?thesis using calls by blast
  next
    case None
    obtain fx2 ev2 r2 where rest: "forEachFacadeListener cur hs ev1 = (fx2, ev2, r2)"
      by (cases "forEachFacadeListener cur hs ev1") auto
    with Cons.prems c None have eq: "fx = fx1 @ fx2" "r2 = Some x" by simp_all
    from Cons.IH [of ev1 fx2 ev2] rest eq obtain pre h' ev0 calls' where
      "fx2 = pre @ Invoke h' cur ev0 # calls'" "invocations calls' = []"
      "ThrowError x \<in> set (handlerScript h' ev0)"
      by blast
    then have "fx = (fx1 @ pre) @ Invoke h' cur ev0 # calls'" using eq by simp
    then show ?thesis
      using \<open>invocations calls' = []\<close> \<open>ThrowError x \<in> set (handlerScript h' ev0)\<close> by blast
  qed
qed

lemma forEach_no_throw:
  assumes "forEachFacadeListener cur hs ev = (fx, ev', None)"
  shows "\<forall>h c ev0 x. Invoke h c ev0 \<in> set fx \<longrightarrow> ThrowError x \<notin> set (handlerScript h ev0)"
  using assms
proof (induction hs arbitrary: ev fx ev')
  case Nil
  then show ?case by simp
next
  case (Cons h hs)
  obtain fx1 ev1 r1 where c: "callHandler cur h ev = (fx1, ev1, r1)"
    by (cases "callHandler cur h ev") auto
  obtain fx2 ev2 r2 where rest: "forEachFacadeListener cur hs ev1 = (fx2, ev2, r2)"
    by (cases "forEachFacadeListener cur hs ev1") auto
  from Cons.prems c rest have r1: "r1 = None" and eq: "fx = fx1 @ fx2" "r2 = None"
    by (auto split: option.splits)
  from callHandler_facts [OF c] r1 obtain calls where
    fx1: "fx1 = Invoke h cur ev # calls" and calls: "\<forall>h c ev0. Invoke h c ev0 \<notin> set calls" and
    nothr: "\<forall>x. ThrowError x \<notin> set (handlerScript h ev)"
    by blast
  from Cons.IH [of ev1 fx2 ev2] rest eq have
    "\<forall>h c ev0 x. Invoke h c ev0 \<in> set fx2 \<longrightarrow> ThrowError x \<notin> set (handlerScript h ev0)"
    by simp
  then show ?case unfolding eq fx1 using calls nothr by auto
qed

lemma bubble_Some_cases:
  assumes "bubble reg ty (Some cur) ev = (fx, ev', r)"
  obtains
    (stopped) "propagationStopped ev" "fx = []" "ev' = ev" "r = None"
  | (threw) ev1 x where "\<not> propagationStopped ev"
      "forEachFacadeListener cur (facadeListenersOfType reg cur ty)
         (ev\<lparr> currentTarget := Some cur \<rparr>) = (fx, ev1, Some x)"
      "ev' = ev1" "r = Some x"
  | (went) fx1 ev1 fx2 where "\<not> propagationStopped ev"
      "forEachFacadeListener cur (facadeListenersOfType reg cur ty)
         (ev\<lparr> currentTarget := Some cur \<rparr>) = (fx1, ev1, None)"
      "bubble reg ty (parent cur) ev1 = (fx2, ev', r)" "fx = fx1 @ fx2"
proof (cases "propagationStopped ev")
  case True
  with assms show ?thesis by (intro stopped) simp_all
next
  case False
  obtain fx1 ev1 r1 where f:
    "forEachFacadeListener cur (facadeListenersOfType reg cur ty)
       (ev\<lparr> currentTarget := Some cur \<rparr>) = (fx1, ev1, r1)"
    by (cases "forEachFacadeListener cur (facadeListenersOfType reg cur ty)
                 (ev\<lparr> currentTarget := Some cur \<rparr>)") auto
  show ?thesis
  proof (cases r1)
    case (Some x)
    with assms False f show ?thesis by (intro threw [of ev1 x]) simp_all
  next
    case None
    obtain fx2 ev2 r2 where b: "bubble reg ty (parent cur) ev1 = (fx2, ev2, r2)"
      by (cases "bubble reg ty (parent cur) ev1") auto
    with assms False f None show ?thesis by (intro went [of fx1 ev1 fx2]) simp_all
  qed
qed

text \<open>
  Every call of the walk is on a node of the chain, by a handler registered on that node
  for the type, with the event's target unchanged and its current target the node.
\<close>

lemma bubble_calls:
  assumes "bubble reg ty n ev = (fx, ev', r)"
  shows "fires fx = [] \<and> evTarget ev' = evTarget ev \<and>
         (\<forall>h c ev0. Invoke h c ev0 \<in> set fx \<longrightarrow>
            c \<in> set (chainFrom n) \<and> h \<in> set (facadeListenersOfType reg c ty) \<and>
            evTarget ev0 = evTarget ev \<and> currentTarget ev0 = Some c)"
  using assms
proof (induction n arbitrary: ev fx ev' r rule: chainFrom.induct)
  case 1
  then show ?case by simp
next
  case (2 cur)
  from "2.prems" show ?case
  proof (cases rule: bubble_Some_cases)
    case stopped
    then show ?thesis by simp
  next
    case (threw ev1 x)
    from forEach_facts [OF threw(2)] threw show ?thesis by auto
  next
    case (went fx1 ev1 fx2)
    from forEach_facts [OF went(2)] "2.IH" [OF went(3)] went(4) show ?thesis by auto
  qed
qed






lemma bubble_throw:
  assumes "bubble reg ty n ev = (fx, ev', Some x)"
  shows "\<exists>pre h c ev0 calls. fx = pre @ Invoke h c ev0 # calls \<and> invocations calls = [] \<and>
           ThrowError x \<in> set (handlerScript h ev0)"
  using assms
proof (induction n arbitrary: ev fx ev' rule: chainFrom.induct)
  case 1
  then show ?case by simp
next
  case (2 cur)
  from "2.prems" show ?case
  proof (cases rule: bubble_Some_cases)
    case stopped
    then show ?thesis by simp
  next
    case (threw ev1 y)
    then have "forEachFacadeListener cur (facadeListenersOfType reg cur ty)
                 (ev\<lparr> currentTarget := Some cur \<rparr>) = (fx, ev1, Some x)"
      by simp
    from forEach_throw [OF this] show ?thesis by blast
  next
    case (went fx1 ev1 fx2)
    from "2.IH" [OF went(3)] obtain pre h c ev0 calls where
      "fx2 = pre @ Invoke h c ev0 # calls" "invocations calls = []"
      "ThrowError x \<in> set (handlerScript h ev0)"
      by blast
    then have "fx = (fx1 @ pre) @ Invoke h c ev0 # calls" using went(4) by simp
    then show ?thesis
      using \<open>invocations calls = []\<close> \<open>ThrowError x \<in> set (handlerScript h ev0)\<close> by blast
  qed
qed

lemma bubble_no_throw:
  assumes "bubble reg ty n ev = (fx, ev', None)"
  shows "\<forall>h c ev0 x. Invoke h c ev0 \<in> set fx \<longrightarrow> ThrowError x \<notin> set (handlerScript h ev0)"
  using assms
proof (induction n arbitrary: ev fx ev' rule: chainFrom.induct)
  case 1
  then show ?case by simp
next
  case (2 cur)
  from "2.prems" show ?case
  proof (cases rule: bubble_Some_cases)
    case stopped
    then show ?thesis by simp
  next
    case (threw ev1 y)
    then show ?thesis by simp
  next
    case (went fx1 ev1 fx2)
    from forEach_no_throw [OF went(2)] "2.IH" [OF went(3)] went(4) show ?thesis by auto
  qed
qed

section \<open>What the listeners keep\<close>

lemma keeps_triple: "keeps I E (w, fx, r) \<longleftrightarrow> I w \<and> list_all E fx"
  by (simp add: keeps_def)

lemma keeps_proceed: "I w \<Longrightarrow> keeps I E (proceed w)"
  by (simp add: keeps_def proceed_def)

lemma keeps_andThen:
  assumes "keeps I E r" and "\<And>w. I w \<Longrightarrow> keeps I E (k w)"
  shows "keeps I E (andThen r k)"
proof -
  obtain w1 fx1 r1 where r: "r = (w1, fx1, r1)" by (cases r) auto
  show ?thesis
  proof (cases r1)
    case (Some x)
    with assms(1) r show ?thesis by simp
  next
    case None
    obtain w2 fx2 r2 where k: "k w1 = (w2, fx2, r2)" by (cases "k w1") auto
    from assms(1) r have "I w1" "list_all E fx1" by (simp_all add: keeps_def)
    moreover from assms(2) [OF \<open>I w1\<close>] k have "I w2" "list_all E fx2" by (simp_all add: keeps_def)
    ultimately show ?thesis using r None k by (simp add: andThen_ok keeps_def)
  qed
qed

lemma keeps_fire:
  assumes "I w"
    and "list_all E (fst (firePointerEvent (eventRegistry cfg) ty (Inl e) tgt related ex))"
  shows "keeps I E (fire cfg ty e tgt related ex w)"
  using assms by (simp add: keeps_def fire_eq dispatchLog_def)

lemma keeps_dragStep:
  assumes "I w"
    and upd: "\<And>w d. I w \<Longrightarrow> I (w\<lparr> dragInfo := d \<rparr>)"
    and ok: "\<And>ty orig tgt related ex. ty \<in> set motionTypes \<Longrightarrow>
               list_all E (fst (firePointerEvent (eventRegistry cfg) ty orig tgt related ex))"
  shows "keeps I E (dragStep cfg e w)"
proof (cases "dragInfo w")
  case None
  with assms(1) show ?thesis by (simp add: dragStep_def keeps_proceed)
next
  case (Some d)
  have ds: "''dragstart'' \<in> set motionTypes" and dr: "''drag'' \<in> set motionTypes"
    by (simp_all add: motionTypes_def)
  let ?res = "firePointerEvent (eventRegistry cfg) ''dragstart'' (Inr (dragStartEvent d))
                (draggedFacade d) None None"
  obtain fx0 ev0 r0 where res: "?res = (fx0, ev0, r0)" by (cases ?res) auto
  from ok [OF ds, of "Inr (dragStartEvent d)" "draggedFacade d" None None] res
  have fx0: "list_all E fx0" by simp
  have first: "keeps I E
      (if \<not> dragStartFired d then
         (case ?res of
            (fx, ev, Some x) \<Rightarrow> (w\<lparr> dragInfo := Some (d\<lparr> dragStartEvent := ev \<rparr>) \<rparr>, fx, Some x)
          | (fx, ev, None) \<Rightarrow>
              (w\<lparr> dragInfo := Some (d\<lparr> dragStartEvent := ev, dragStartFired := True \<rparr>) \<rparr>,
               fx, None))
       else proceed w)"
    using assms(1) upd fx0 res by (cases r0) (simp_all add: keeps_triple keeps_proceed)
  have second: "keeps I E (fire cfg ''drag'' e (draggedFacade d) None None w')" if "I w'" for w'
    using that ok [OF dr] by (intro keeps_fire) simp_all
  from keeps_andThen [OF first second] Some show ?thesis by (simp add: dragStep_def)
qed

lemma keeps_fireAll:
  assumes "I w"
    and ok: "\<And>ty tgt related. (ty, tgt, related) \<in> set ds \<Longrightarrow>
               list_all E (fst (firePointerEvent (eventRegistry cfg) ty (Inl e) tgt related ex))"
  shows "keeps I E (fireAll cfg e ex ds w)"
  using assms
proof (induction ds arbitrary: w)
  case Nil
  then show ?case by (simp add: keeps_proceed)
next
  case (Cons d ds)
  obtain ty tgt related where d: "d = (ty, tgt, related)" by (cases d) auto
  have one: "keeps I E (fire cfg ty e tgt related ex w)"
    using Cons.prems d by (intro keeps_fire) simp_all
  have rest: "keeps I E (fireAll cfg e ex ds w')" if "I w'" for w'
    using that Cons.prems(2) by (intro Cons.IH) simp_all
  from keeps_andThen [OF one rest] d show ?case by simp
qed

lemma hoverDispatches_types:
  "(ty, tgt, related) \<in> set (hoverDispatches l h dragging) \<Longrightarrow> ty \<in> set motionTypes"
  by (auto simp: hoverDispatches_def motionTypes_def split: option.splits if_splits)

lemma keeps_hoverStep:
  assumes "I w"
    and upd: "\<And>w h. I w \<Longrightarrow> I (w\<lparr> hoveredFacade := h \<rparr>)"
    and ok: "\<And>ty orig tgt related ex. ty \<in> set motionTypes \<Longrightarrow>
               list_all E (fst (firePointerEvent (eventRegistry cfg) ty orig tgt related ex))"
  shows "keeps I E (hoverStep cfg e dragging w)"
proof (cases "hoverInfoFor cfg e")
  case (Inl x)
  with assms(1) show ?thesis by (simp add: hoverStep_def keeps_triple)
next
  case (Inr hoverInfo)
  show ?thesis
    unfolding hoverStep_fireAll [OF Inr]
    using assms(1) upd ok hoverDispatches_types by (intro keeps_fireAll) blast+
qed

lemma keeps_onPointerMotionEvent:
  assumes "I w"
    and updD: "\<And>w d. I w \<Longrightarrow> I (w\<lparr> dragInfo := d \<rparr>)"
    and updH: "\<And>w h. I w \<Longrightarrow> I (w\<lparr> hoveredFacade := h \<rparr>)"
    and updT: "\<And>w. I w \<Longrightarrow> I (tapCancelStep e w)"
    and ok: "\<And>ty orig tgt related ex. ty \<in> set motionTypes \<Longrightarrow>
               list_all E (fst (firePointerEvent (eventRegistry cfg) ty orig tgt related ex))"
  shows "keeps I E (onPointerMotionEvent cfg e w)"
proof -
  have guarded: "keeps I E
      (if motionListened cfg
       then andThen (dragStep cfg e w) (hoverStep cfg e (dragInfo w \<noteq> None))
       else proceed w)"
  proof (cases "motionListened cfg")
    case True
    have "keeps I E (andThen (dragStep cfg e w) (hoverStep cfg e (dragInfo w \<noteq> None)))"
      using assms(1) updD updH ok
      by (intro keeps_andThen keeps_dragStep keeps_hoverStep) blast+
    with True show ?thesis by simp
  next
    case False
    with assms(1) show ?thesis by (simp add: keeps_proceed)
  qed
  have last: "keeps I E (proceed (tapCancelStep e w'))" if "I w'" for w'
    using updT [OF that] by (rule keeps_proceed)
  from keeps_andThen [OF guarded last] show ?thesis by (simp add: onPointerMotionEvent_def)
qed

section \<open>BasicThenable: settlement\<close>

text \<open>
  Claim C10: the thenable settles at most once; after the first effective settlement every
  later call of a settlement callback is a no-op and state and value never change.
  The code breaks this when \<open>resolve\<close> is given a foreign thenable whose \<open>then\<close> calls
  its fulfil callback and afterwards its reject callback: the two callbacks handed out by
  \<open>complete\<close> are wrapped by two separate \<open>oneTime\<close> guards, so the second one runs
  \<open>complete\<close> once more and overwrites the settled state and value. With the first call
  alone the thenable is fulfilled with 1; with the reject call added it ends rejected
  with 2, and that is what a registered callback observes at the flush.
\<close>

theorem BasicThenable_resettles:
  "state (resolve (ThenObj (CallFulfil (Num 1) Done)) BasicThenable) = 1 \<and>
   value (resolve (ThenObj (CallFulfil (Num 1) Done)) BasicThenable) = Num 1 \<and>
   state (resolve (ThenObj (CallFulfil (Num 1) (CallReject (Num 2) Done))) BasicThenable) = - 1 \<and>
   value (resolve (ThenObj (CallFulfil (Num 1) (CallReject (Num 2) Done))) BasicThenable) = Num 2 \<and>
   fst (flushQueue (resolve (ThenObj (CallFulfil (Num 1) (CallReject (Num 2) Done)))
          (then_reg 7 BasicThenable))) = [(7, False, Num 2)]"
  by (simp add: resolve_def BasicThenable_def scheduleQueueFlush_def then_reg_def flushQueue_def)

section \<open>World3DFacade: flushing the changeset\<close>

lemma fold_removeSphere_at:
  "fold removeSphere rs t k = (if k \<in> set rs then None else t k)"
  by (induction rs arbitrary: t) (auto simp: removeSphere_def)

lemma putStep_other: "k \<noteq> p \<Longrightarrow> putStep byId rem p t k = t k"
  by (simp add: putStep_def putSphere_def removeSphere_def split: option.splits)

lemma putStep_twice:
  "putStep byId rem k (putStep byId rem p t) k = putStep byId rem k t k"
  by (cases "k = p")
     (auto simp: putStep_def putSphere_def removeSphere_def split: option.splits)

lemma fold_putStep_at:
  "fold (putStep byId rem) ps t k = (if k \<in> set ps then putStep byId rem k t k else t k)"
proof (induction ps arbitrary: t)
  case Nil
  show ?case by simp
next
  case (Cons p ps)
  show ?case
  proof (cases "k = p")
    case True
    then show ?thesis using Cons.IH [of "putStep byId rem p t"]
      by (simp add: putStep_twice)
  next
    case False
    then show ?thesis using Cons.IH [of "putStep byId rem p t"]
      by (simp add: putStep_other putStep_twice)
  qed
qed

lemma indexAfter_at:
  assumes "octreeChangeset w = Some ch"
  shows "indexAfter w k =
           (if hasKey k (remove ch) then None
            else if hasKey k (put ch)
              then putStep (object3DFacadesById w) (remove ch) k (indexBefore w) k
              else indexBefore w k)"
proof -
  let ?b = "indexBefore w"
  let ?r = "case remove ch of None \<Rightarrow> ?b | Some rs \<Rightarrow> fold removeSphere rs ?b"
  have after: "indexAfter w =
      (case put ch of None \<Rightarrow> ?r
       | Some ps \<Rightarrow> fold (putStep (object3DFacadesById w) (remove ch)) ps ?r)"
    using assms
    by (simp add: indexAfter_def indexBefore_def updateOctree_def Let_def split: option.splits)
  have r_at: "?r k = (if hasKey k (remove ch) then None else ?b k)"
    by (simp add: hasKey_def fold_removeSphere_at split: option.splits)
  have skip: "hasKey k (remove ch) \<Longrightarrow> putStep (object3DFacadesById w) (remove ch) k t k = t k" for t
    by (simp add: putStep_def split: option.splits)
  have same: "\<not> hasKey k (remove ch) \<Longrightarrow>
      putStep (object3DFacadesById w) (remove ch) k ?r k =
      putStep (object3DFacadesById w) (remove ch) k ?b k"
    using r_at by (simp add: putStep_def putSphere_def removeSphere_def split: option.splits)
  show ?thesis
  proof (cases "put ch")
    case None
    then show ?thesis using after r_at by (simp add: hasKey_def)
  next
    case (Some ps)
    then have "indexAfter w k =
        (if k \<in> set ps then putStep (object3DFacadesById w) (remove ch) k ?r k else ?r k)"
      using after by (simp add: fold_putStep_at)
    then show ?thesis using Some r_at skip same by (simp add: hasKey_def)
  qed
qed

text \<open>
  Claim C6 as stated fails for a destroyed owner: the put of object 3 of the sample world,
  marked \<open>isDestroying\<close> and not in the remove set, leaves the entry of 3 in the index.
\<close>

theorem updateOctree_destroyed_put_keeps_entry:
  "object3DFacadesById sampleWorld3d 3 =
     Some \<lparr> isDestroying = True, getBoundingSphere = Some bigSphere \<rparr> \<and>
   octreeChangeset sampleWorld3d = Some \<lparr> remove = Some [1], put = Some [1, 2, 3, 4] \<rparr> \<and>
   indexAfter sampleWorld3d 3 \<noteq> None"
  by (simp add: indexAfter_def updateOctree_def sampleWorld3d_def putStep_def hasKey_def
        putSphere_def removeSphere_def Let_def)

text \<open>
  Claim C6, amended. The flush applies the pending changeset once and clears it (a second
  flush changes nothing). Afterwards: every id of the remove set has no entry, also when it
  is in the put set; a put for a registered, not destroyed object outside the remove set
  stores its current bounding sphere, or removes the entry when the sphere is absent; a put
  for an object that is marked destroyed or is no longer registered is skipped, the entry
  of that id stays as it was.
\<close>

theorem updateOctree_flush:
  assumes "octreeChangeset w = Some ch"
  shows "(hasKey k (remove ch) \<longrightarrow> indexAfter w k = None) \<and>
         (hasKey k (put ch) \<and> \<not> hasKey k (remove ch) \<and>
            object3DFacadesById w k = Some f \<and> \<not> isDestroying f \<longrightarrow>
              indexAfter w k = getBoundingSphere f) \<and>
         (\<not> hasKey k (remove ch) \<and>
            (object3DFacadesById w k = None \<or>
             (\<exists>g. object3DFacadesById w k = Some g \<and> isDestroying g)) \<longrightarrow>
              indexAfter w k = indexBefore w k) \<and>
         octreeChangeset (snd (updateOctree w)) = None \<and>
         updateOctree (snd (updateOctree w)) = (fst (updateOctree w), snd (updateOctree w))"
proof -
  have a: "hasKey k (remove ch) \<longrightarrow> indexAfter w k = None"
    using indexAfter_at [OF assms, of k] by simp
  have b: "hasKey k (put ch) \<and> \<not> hasKey k (remove ch) \<and>
            object3DFacadesById w k = Some f \<and> \<not> isDestroying f \<longrightarrow>
              indexAfter w k = getBoundingSphere f"
    using indexAfter_at [OF assms, of k]
    by (auto simp: putStep_def putSphere_def removeSphere_def split: option.splits)
  have c: "\<not> hasKey k (remove ch) \<and>
            (object3DFacadesById w k = None \<or>
             (\<exists>g. object3DFacadesById w k = Some g \<and> isDestroying g)) \<longrightarrow>
              indexAfter w k = indexBefore w k"
    using indexAfter_at [OF assms, of k]
    by (auto simp: putStep_def split: option.splits)
  have d: "octreeChangeset (snd (updateOctree w)) = None"
    using assms by (simp add: updateOctree_def Let_def)
  have e: "updateOctree (snd (updateOctree w)) = (fst (updateOctree w), snd (updateOctree w))"
    using assms by (simp add: updateOctree_def Let_def)
  from a b c d e show ?thesis by blast
qed

theorem updateOctree_flush_witness:
  "octreeChangeset sampleWorld3d = Some \<lparr> remove = Some [1], put = Some [1, 2, 3, 4] \<rparr> \<and>
   indexAfter sampleWorld3d 1 = None \<and>
   indexAfter sampleWorld3d 2 = None \<and>
   indexAfter sampleWorld3d 4 = Some bigSphere \<and>
   indexAfter sampleWorld3d 3 = indexBefore sampleWorld3d 3 \<and>
   octreeChangeset (snd (updateOctree sampleWorld3d)) = None"
proof -
  let ?ch = "\<lparr> remove = Some [1], put = Some [1, 2, 3, 4] \<rparr>"
  have h: "octreeChangeset sampleWorld3d = Some ?ch"
    by (simp add: sampleWorld3d_def)
  have byId:
    "object3DFacadesById sampleWorld3d 2 = Some \<lparr> isDestroying = False, getBoundingSphere = None \<rparr>"
    "object3DFacadesById sampleWorld3d 3 = Some \<lparr> isDestroying = True, getBoundingSphere = Some bigSphere \<rparr>"
    "object3DFacadesById sampleWorld3d 4 = Some \<lparr> isDestroying = False, getBoundingSphere = Some bigSphere \<rparr>"
    by (simp_all add: sampleWorld3d_def)
  have k1: "indexAfter sampleWorld3d 1 = None"
    using updateOctree_flush [OF h, of 1] by (simp add: hasKey_def)
  have k2: "indexAfter sampleWorld3d 2 = None"
    using updateOctree_flush [OF h, of 2 "\<lparr> isDestroying = False, getBoundingSphere = None \<rparr>"] byId
    by (simp add: hasKey_def)
  have k4: "indexAfter sampleWorld3d 4 = Some bigSphere"
    using updateOctree_flush [OF h, of 4 "\<lparr> isDestroying = False, getBoundingSphere = Some bigSphere \<rparr>"] byId
    by (simp add: hasKey_def)
  have k3: "indexAfter sampleWorld3d 3 = indexBefore sampleWorld3d 3"
    using updateOctree_flush [OF h, of 3] byId by (simp add: hasKey_def)
  have cl: "octreeChangeset (snd (updateOctree sampleWorld3d)) = None"
    using updateOctree_flush [OF h] by simp
  from h k1 k2 k3 k4 cl show ?thesis by simp
qed

section \<open>WorldBaseFacade: the order of the hits\<close>









section \<open>Dispatch: bubbling and throwing handlers\<close>



lemma firePointerEvent_cases:
  assumes "firePointerEvent reg ty orig tgt related ex = (fx, ev, r)"
  obtains fx0 where
    "bubble reg ty (Some tgt)
       (case orig of Inr se \<Rightarrow> se | Inl ne \<Rightarrow> SyntheticEvent ne ty tgt related ex) = (fx0, ev, r)"
    "fx = Fire ty tgt # fx0"
  using assms
  by (auto simp: firePointerEvent_def Let_def split: prod.splits simp del: bubble.simps)


lemmas walk_sample_defs =
  stoppingRegistry_def throwingRegistry_def sampleClick_def buttonF_def panelF_def rootF_def
  quiet_def stopper_def thrower_def firePointerEvent_def SyntheticEvent_def
  facadeListenersOfType_def callHandler_def Let_def


text \<open>
  Claim C9. The dispatch has no handler for exceptions: when a handler throws, the
  dispatch ends with that exception as its outcome, and the call of the throwing handler
  is the last handler call of the dispatch (no further handler of the node or of an
  ancestor is called). A dispatch that ends normally has called no handler that throws.
\<close>

theorem firePointerEvent_handler_throws:
  assumes "firePointerEvent reg ty originalEvent tgt related ex = (fx, ev, r)"
  shows "(\<forall>x. r = Some x \<longrightarrow>
            (\<exists>pre h c ev0 calls. fx = pre @ Invoke h c ev0 # calls \<and> invocations calls = [] \<and>
               ThrowError x \<in> set (handlerScript h ev0))) \<and>
         (r = None \<longrightarrow>
            (\<forall>h c ev0 x. Invoke h c ev0 \<in> set fx \<longrightarrow> ThrowError x \<notin> set (handlerScript h ev0)))"
proof -
  let ?new = "case originalEvent of Inr se \<Rightarrow> se | Inl ne \<Rightarrow> SyntheticEvent ne ty tgt related ex"
  obtain fx0 where b: "bubble reg ty (Some tgt) ?new = (fx0, ev, r)" and fx: "fx = Fire ty tgt # fx0"
    using firePointerEvent_cases [OF assms] by auto
  have t: "\<forall>x. r = Some x \<longrightarrow>
            (\<exists>pre h c ev0 calls. fx = pre @ Invoke h c ev0 # calls \<and> invocations calls = [] \<and>
               ThrowError x \<in> set (handlerScript h ev0))"
  proof (intro allI impI)
    fix x
    assume "r = Some x"
    with b have "bubble reg ty (Some tgt) ?new = (fx0, ev, Some x)" by simp
    from bubble_throw [OF this] obtain pre h c ev0 calls where
      "fx0 = pre @ Invoke h c ev0 # calls" "invocations calls = []"
      "ThrowError x \<in> set (handlerScript h ev0)"
      by blast
    then have "fx = (Fire ty tgt # pre) @ Invoke h c ev0 # calls" using fx by simp
    then show "\<exists>pre h c ev0 calls. fx = pre @ Invoke h c ev0 # calls \<and> invocations calls = [] \<and>
                 ThrowError x \<in> set (handlerScript h ev0)"
      using \<open>invocations calls = []\<close> \<open>ThrowError x \<in> set (handlerScript h ev0)\<close> by blast
  qed
  have n: "r = None \<longrightarrow>
            (\<forall>h c ev0 x. Invoke h c ev0 \<in> set fx \<longrightarrow> ThrowError x \<notin> set (handlerScript h ev0))"
  proof
    assume "r = None"
    with b have "bubble reg ty (Some tgt) ?new = (fx0, ev, None)" by simp
    from bubble_no_throw [OF this] fx show
      "\<forall>h c ev0 x. Invoke h c ev0 \<in> set fx \<longrightarrow> ThrowError x \<notin> set (handlerScript h ev0)"
      by auto
  qed
  from t n show ?thesis by blast
qed

theorem firePointerEvent_handler_throws_witness:
  "snd (snd (firePointerEvent throwingRegistry ''click'' (Inl sampleClick) buttonF None None))
     = Some (HandlerError 2) \<and>
   map (\<lambda>(h, c). (handlerId h, facadeId c))
     (invocations (fst (firePointerEvent throwingRegistry ''click'' (Inl sampleClick) buttonF None None)))
     = [(1, 3), (2, 3)] \<and>
   (\<exists>pre h c ev0 calls.
      fst (firePointerEvent throwingRegistry ''click'' (Inl sampleClick) buttonF None None)
        = pre @ Invoke h c ev0 # calls \<and>
      invocations calls = [] \<and> ThrowError (HandlerError 2) \<in> set (handlerScript h ev0))"
proof -
  let ?res = "firePointerEvent throwingRegistry ''click'' (Inl sampleClick) buttonF None None"
  have eq: "?res = (fst ?res, fst (snd ?res), snd (snd ?res))" by simp
  have r: "snd (snd ?res) = Some (HandlerError 2)" by (simp add: walk_sample_defs)
  have calls: "map (\<lambda>(h, c). (handlerId h, facadeId c)) (invocations (fst ?res)) = [(1, 3), (2, 3)]"
    by (simp add: walk_sample_defs)
  from firePointerEvent_handler_throws [OF eq] r have
    "\<exists>pre h c ev0 calls. fst ?res = pre @ Invoke h c ev0 # calls \<and> invocations calls = [] \<and>
       ThrowError (HandlerError 2) \<in> set (handlerScript h ev0)"
    by blast
  with r calls show ?thesis by blast
qed

section \<open>Motion events: hover transitions\<close>

lemma fires_firePointerEvent:
  "fires (fst (firePointerEvent reg ty orig tgt related ex)) = [(ty, tgt)]"
proof -
  let ?res = "firePointerEvent reg ty orig tgt related ex"
  have eq: "?res = (fst ?res, fst (snd ?res), snd (snd ?res))" by simp
  from firePointerEvent_cases [OF eq] obtain fx0 where
    b: "bubble reg ty (Some tgt)
          (case orig of Inr se \<Rightarrow> se | Inl ne \<Rightarrow> SyntheticEvent ne ty tgt related ex)
          = (fx0, fst (snd ?res), snd (snd ?res))"
    and fx: "fst ?res = Fire ty tgt # fx0"
    by blast
  from bubble_calls [OF b] fx show ?thesis by simp
qed

lemma fires_dispatchLog: "fires (dispatchLog cfg e ex d) = [dispatchHead d]"
  by (cases d) (simp add: dispatchLog_def dispatchHead_def fires_firePointerEvent)

lemma fires_concat_dispatchLog:
  "fires (concat (map (dispatchLog cfg e ex) ds)) = map dispatchHead ds"
  by (induction ds) (simp_all add: fires_dispatchLog)

lemma dragStep_completes:
  assumes "dragStep cfg e w = (w1, fx1, None)"
  shows "hoveredFacade w1 = hoveredFacade w \<and> tapInfo w1 = tapInfo w \<and>
         dropListeners w1 = dropListeners w \<and>
         fires fx1 = dragDispatches (dragInfo w) \<and>
         (dragInfo w = None \<longrightarrow> dragInfo w1 = None) \<and>
         (\<forall>d. dragInfo w = Some d \<longrightarrow>
            (\<exists>d1. dragInfo w1 = Some d1 \<and> dragStartFired d1 \<and>
                  draggedFacade d1 = draggedFacade d))"
proof (cases "dragInfo w")
  case None
  with assms show ?thesis by (simp add: dragStep_def proceed_def dragDispatches_def)
next
  case (Some d)
  show ?thesis
  proof (cases "dragStartFired d")
    case True
    with assms Some show ?thesis
      by (auto simp: dragStep_def fire_eq andThen_ok dragDispatches_def fires_dispatchLog
            dispatchHead_def)
  next
    case False
    let ?res = "firePointerEvent (eventRegistry cfg) ''dragstart'' (Inr (dragStartEvent d))
                  (draggedFacade d) None None"
    have fs: "fires (fst ?res) = [(''dragstart'', draggedFacade d)]"
      by (rule fires_firePointerEvent)
    obtain fx0 ev0 r0 where res: "?res = (fx0, ev0, r0)" by (cases ?res) auto
    with fs have fs0: "fires fx0 = [(''dragstart'', draggedFacade d)]" by simp
    from assms Some False res have r0: "r0 = None"
      by (cases r0) (simp_all add: dragStep_def)
    from assms Some False res r0 fs0 show ?thesis
      by (auto simp: dragStep_def fire_eq andThen_ok dragDispatches_def fires_dispatchLog
            dispatchHead_def)
  qed
qed

lemma tapCancelStep_keeps:
  "hoveredFacade (tapCancelStep e w) = hoveredFacade w \<and>
   dragInfo (tapCancelStep e w) = dragInfo w \<and>
   dropListeners (tapCancelStep e w) = dropListeners w"
  by (simp add: tapCancelStep_def split: option.splits list.splits)

text \<open>A motion event that is processed to its end, while a listener of a motion type is registered.\<close>

lemma onPointerMotionEvent_completes:
  assumes listened: "motionListened cfg"
    and run: "onPointerMotionEvent cfg e w = (w', fx, None)"
  obtains hoverInfo w1 dragFx where
    "hoverInfoFor cfg e = Inr hoverInfo"
    "dragStep cfg e w = (w1, dragFx, None)"
    "w' = tapCancelStep e (w1\<lparr> hoveredFacade := map_option hfacade hoverInfo \<rparr>)"
    "fx = dragFx @ concat (map (dispatchLog cfg e hoverInfo)
            (hoverDispatches (hoveredFacade w) (map_option hfacade hoverInfo) (dragInfo w \<noteq> None)))"
proof -
  from run listened have
    "andThen (andThen (dragStep cfg e w) (hoverStep cfg e (dragInfo w \<noteq> None)))
       (\<lambda>w. proceed (tapCancelStep e w)) = (w', fx, None)"
    by (simp add: onPointerMotionEvent_def)
  then obtain w2 fx12 fx3 where
    a: "andThen (dragStep cfg e w) (hoverStep cfg e (dragInfo w \<noteq> None)) = (w2, fx12, None)"
    and t: "proceed (tapCancelStep e w2) = (w', fx3, None)" and fx: "fx = fx12 @ fx3"
    by (rule andThen_NoneE)
  from a obtain w1 dragFx fx2 where
    d: "dragStep cfg e w = (w1, dragFx, None)"
    and h: "hoverStep cfg e (dragInfo w \<noteq> None) w1 = (w2, fx2, None)" and fx12: "fx12 = dragFx @ fx2"
    by (rule andThen_NoneE)
  obtain hoverInfo where hi: "hoverInfoFor cfg e = Inr hoverInfo"
    using h by (cases "hoverInfoFor cfg e") (simp_all add: hoverStep_def)
  have last: "hoveredFacade w1 = hoveredFacade w" using dragStep_completes [OF d] by simp
  from h have
    "fireAll cfg e hoverInfo
       (hoverDispatches (hoveredFacade w) (map_option hfacade hoverInfo) (dragInfo w \<noteq> None))
       (w1\<lparr> hoveredFacade := map_option hfacade hoverInfo \<rparr>) = (w2, fx2, None)"
    by (simp add: hoverStep_fireAll [OF hi] last)
  from fireAll_completes [OF this] have
    w2: "w2 = w1\<lparr> hoveredFacade := map_option hfacade hoverInfo \<rparr>" and
    fx2: "fx2 = concat (map (dispatchLog cfg e hoverInfo)
            (hoverDispatches (hoveredFacade w) (map_option hfacade hoverInfo) (dragInfo w \<noteq> None)))"
    by simp_all
  from t have "w' = tapCancelStep e w2" "fx3 = []" by (simp_all add: proceed_def)
  with hi d w2 fx2 fx fx12 that show thesis by simp
qed

text \<open>
  Claim C2. A motion event processed to its end while a listener of a motion type is
  registered sets the hovered facade to the newly resolved target, and what it does is,
  after the drag dispatches, exactly the hover dispatches of the specification, each one
  run to completion before the next begins: \<open>mouseout\<close> on the previous target before
  \<open>mouseover\<close> on the new one when the target has changed, neither of them when it has not,
  and \<open>mousemove\<close> (with \<open>dragover\<close> during a drag) whenever there is a hover target.
\<close>

theorem onPointerMotionEvent_hover:
  assumes "motionListened cfg"
    and "onPointerMotionEvent cfg e w = (w', fx, None)"
  shows "\<exists>hoverInfo dragFx.
           hoverInfoFor cfg e = Inr hoverInfo \<and>
           hoveredFacade w' = map_option hfacade hoverInfo \<and>
           fires dragFx = dragDispatches (dragInfo w) \<and>
           fx = dragFx @ concat (map (dispatchLog cfg e hoverInfo)
                  (hoverDispatches (hoveredFacade w) (hoveredFacade w') (dragInfo w \<noteq> None))) \<and>
           fires fx = dragDispatches (dragInfo w) @
                  map dispatchHead
                    (hoverDispatches (hoveredFacade w) (hoveredFacade w') (dragInfo w \<noteq> None))"
proof -
  from assms obtain hoverInfo w1 dragFx where
    hi: "hoverInfoFor cfg e = Inr hoverInfo" and
    d: "dragStep cfg e w = (w1, dragFx, None)" and
    w': "w' = tapCancelStep e (w1\<lparr> hoveredFacade := map_option hfacade hoverInfo \<rparr>)" and
    fx: "fx = dragFx @ concat (map (dispatchLog cfg e hoverInfo)
            (hoverDispatches (hoveredFacade w) (map_option hfacade hoverInfo) (dragInfo w \<noteq> None)))"
    by (rule onPointerMotionEvent_completes)
  have hov: "hoveredFacade w' = map_option hfacade hoverInfo"
    using w' tapCancelStep_keeps by simp
  have df: "fires dragFx = dragDispatches (dragInfo w)"
    using dragStep_completes [OF d] by simp
  have "fires fx = dragDispatches (dragInfo w) @
          map dispatchHead
            (hoverDispatches (hoveredFacade w) (hoveredFacade w') (dragInfo w \<noteq> None))"
    using fx df hov by (simp add: fires_concat_dispatchLog)
  with hi hov df fx show ?thesis by auto
qed

lemmas scene_defs =
  sampleConfig_def sampleRegistry_def samplePick_def hitOn_def idleWorld_def
  buttonF_def panelF_def rootF_def labelF_def quiet_def

lemmas pipeline_defs =
  onPointerMotionEvent_def motionListened_def hasAnyListenersOfType_def dragStep_def hoverStep_def
  hoverInfoFor_def andThen_def proceed_def findHoverTarget_def sortHits_def sortWith_def
  isTouchEndOrCancel_def fire_def firePointerEvent_def SyntheticEvent_def
  facadeListenersOfType_def callHandler_def Let_def tapCancelStep_def

theorem onPointerMotionEvent_hover_witness:
  "motionListened sampleConfig \<and>
   snd (snd (onPointerMotionEvent sampleConfig moveToLabel overButton)) = None \<and>
   hoveredFacade overButton = Some buttonF \<and>
   hoveredFacade (fst (onPointerMotionEvent sampleConfig moveToLabel overButton)) = Some labelF \<and>
   fires (fst (snd (onPointerMotionEvent sampleConfig moveToLabel overButton))) =
     [(''mouseout'', buttonF), (''mouseover'', labelF), (''mousemove'', labelF)]"
proof -
  let ?res = "onPointerMotionEvent sampleConfig moveToLabel overButton"
  have listened: "motionListened sampleConfig"
    by (simp add: motionListened_def hasAnyListenersOfType_def scene_defs)
  have r: "snd (snd ?res) = None"
    by (simp add: pipeline_defs scene_defs overButton_def moveToLabel_def)
  then have run: "?res = (fst ?res, fst (snd ?res), None)"
    by (metis prod.collapse)
  have before: "hoveredFacade overButton = Some buttonF" "dragInfo overButton = None"
    by (simp_all add: overButton_def idleWorld_def)
  have hi: "hoverInfoFor sampleConfig moveToLabel = Inr (Some (hitOn labelF 7))"
    by (simp add: hoverInfoFor_def findHoverTarget_def sortHits_def sortWith_def
          isTouchEndOrCancel_def moveToLabel_def sampleConfig_def samplePick_def)
  have ne: "buttonF \<noteq> labelF" by (simp add: buttonF_def labelF_def)
  from onPointerMotionEvent_hover [OF listened run] hi before have
    hov: "hoveredFacade (fst ?res) = Some labelF" and
    fs: "fires (fst (snd ?res)) =
           map dispatchHead (hoverDispatches (Some buttonF) (Some labelF) False)"
    by (auto simp: hitOn_def dragDispatches_def)
  from fs ne have "fires (fst (snd ?res)) =
      [(''mouseout'', buttonF), (''mouseover'', labelF), (''mousemove'', labelF)]"
    by (simp add: hoverDispatches_def dispatchHead_def)
  with listened r before hov show ?thesis by simp
qed

section \<open>Action events: tap recognition\<close>

text \<open>
  The loop of \<open>_hasEventHandlerInParentTree\<close> asks the registry about the event type
  alone, without the facade it walks over: the lookup finds nothing, on every node.
\<close>

lemma hasEventHandlerInParentTree_False: "\<not> hasEventHandlerInParentTree reg n ty"
  by (induction n rule: chainFrom.induct) simp_all

lemma tapStep_proceed: "tapStep cfg now e facade hoverInfo w = proceed w"
  by (simp add: tapStep_def hasEventHandlerInParentTree_False)

lemmas tap_defs =
  onPointerActionEvent_def actionStep_def actionListened_def tapStep_def dragInitStep_def
  mappedActionType_def tapConfig_def tapStart_def tapEnd_def

text \<open>
  Claim C4 fails on the code. The label has a click listener; the touch-start and the
  touch-end 150 ms later both resolve to the label, the touch has not moved past the
  threshold, the touch-end has no remaining touch and one changed touch. The touch-start
  dispatches \<open>mousedown\<close> and records no tap candidate; the touch-end dispatches \<open>mouseup\<close>
  and no \<open>click\<close>.
\<close>

theorem tap_on_click_listener_fires_no_click:
  "facadeListenersOfType (eventRegistry tapConfig) labelF ''click'' \<noteq> [] \<and>
   findHoverTarget tapConfig tapStart = Inr (Some (hitOn labelF 7)) \<and>
   findHoverTarget tapConfig tapEnd = Inr (Some (hitOn labelF 7)) \<and>
   snd (snd (onPointerActionEvent tapConfig 0 tapStart idleWorld)) = None \<and>
   fires (fst (snd (onPointerActionEvent tapConfig 0 tapStart idleWorld))) = [(''mousedown'', labelF)] \<and>
   tapInfo (fst (onPointerActionEvent tapConfig 0 tapStart idleWorld)) = None \<and>
   snd (snd (onPointerActionEvent tapConfig 150 tapEnd
               (fst (onPointerActionEvent tapConfig 0 tapStart idleWorld)))) = None \<and>
   fires (fst (snd (onPointerActionEvent tapConfig 150 tapEnd
                      (fst (onPointerActionEvent tapConfig 0 tapStart idleWorld)))))
     = [(''mouseup'', labelF)]"
  by (simp add: tap_defs pipeline_defs scene_defs)

section \<open>Action events: what they dispatch and prevent\<close>

lemma list_all_firesWithin:
  "list_all (firesWithin tys) fx \<longleftrightarrow> (\<forall>p \<in> set (fires fx). fst p \<in> set tys)"
  by (induction fx rule: fires.induct) (simp_all add: firesWithin_def)

lemma firesWithin_dispatch:
  "ty \<in> set tys \<Longrightarrow> list_all (firesWithin tys) (fst (firePointerEvent reg ty orig tgt related ex))"
  by (simp add: list_all_firesWithin fires_firePointerEvent)

lemma notPrevent_simps [simp]:
  "notPrevent (Fire ty f)" "notPrevent (Invoke h c ev)" "notPrevent (NativeStopPropagation i)"
  "\<not> notPrevent (NativePreventDefault i)"
  by (simp_all add: notPrevent_def)

lemma runActions_notPrevent:
  "PreventDefault \<notin> set acts \<Longrightarrow> list_all notPrevent (fst (runActions acts ev))"
proof (induction acts ev rule: runActions.induct)
  case (1 ev)
  show ?case by simp
next
  case (2 as ev)
  obtain fx0 ev0 r0 where rec: "runActions as (ev\<lparr> propagationStopped := True \<rparr>) = (fx0, ev0, r0)"
    by (cases "runActions as (ev\<lparr> propagationStopped := True \<rparr>)") auto
  with 2 have "list_all notPrevent fx0" by simp
  with rec show ?case by simp
next
  case (3 as ev)
  then show ?case by simp
next
  case (4 x as ev)
  show ?case by simp
qed

lemma forEach_notPrevent:
  assumes "\<forall>h \<in> set hs. \<forall>ev. PreventDefault \<notin> set (handlerScript h ev)"
  shows "list_all notPrevent (fst (forEachFacadeListener cur hs ev))"
  using assms
proof (induction hs arbitrary: ev)
  case Nil
  show ?case by simp
next
  case (Cons h hs)
  obtain calls ev0 r0 where run: "runActions (handlerScript h ev) ev = (calls, ev0, r0)"
    by (cases "runActions (handlerScript h ev) ev") auto
  have "list_all notPrevent (fst (runActions (handlerScript h ev) ev))"
    using Cons.prems by (intro runActions_notPrevent) simp
  with run have calls: "list_all notPrevent calls" by simp
  obtain fx2 ev2 r2 where rest: "forEachFacadeListener cur hs ev0 = (fx2, ev2, r2)"
    by (cases "forEachFacadeListener cur hs ev0") auto
  have "list_all notPrevent (fst (forEachFacadeListener cur hs ev0))"
    using Cons.IH Cons.prems by simp
  with rest have fx2: "list_all notPrevent fx2" by simp
  show ?case
    using run calls rest fx2
    by (cases r0) (simp_all add: callHandler_def)
qed

lemma listeners_notPrevent:
  "noHandlerPrevents reg \<Longrightarrow>
     \<forall>h \<in> set (facadeListenersOfType reg f ty). \<forall>ev. PreventDefault \<notin> set (handlerScript h ev)"
  by (auto simp: noHandlerPrevents_def facadeListenersOfType_def list_all_iff)

lemma bubble_notPrevent:
  assumes "noHandlerPrevents reg"
  shows "list_all notPrevent (fst (bubble reg ty n ev))"
proof (induction n arbitrary: ev rule: chainFrom.induct)
  case 1
  show ?case by simp
next
  case (2 cur)
  obtain fx ev' r where b: "bubble reg ty (Some cur) ev = (fx, ev', r)"
    by (cases "bubble reg ty (Some cur) ev") auto
  have node: "list_all notPrevent
      (fst (forEachFacadeListener cur (facadeListenersOfType reg cur ty) ev0))" for ev0
    using forEach_notPrevent [OF listeners_notPrevent [OF assms]] by simp
  from b have "list_all notPrevent fx"
  proof (cases rule: bubble_Some_cases)
    case stopped
    then show ?thesis by simp
  next
    case (threw ev1 x)
    with node [of "ev\<lparr> currentTarget := Some cur \<rparr>"] show ?thesis by simp
  next
    case (went fx1 ev1 fx2)
    with node [of "ev\<lparr> currentTarget := Some cur \<rparr>"] "2.IH" [of ev1] show ?thesis by simp
  qed
  with b show ?case by simp
qed

lemma notPrevent_dispatch:
  assumes "noHandlerPrevents reg"
  shows "list_all notPrevent (fst (firePointerEvent reg ty orig tgt related ex))"
proof -
  let ?res = "firePointerEvent reg ty orig tgt related ex"
  have eq: "?res = (fst ?res, fst (snd ?res), snd (snd ?res))" by simp
  from firePointerEvent_cases [OF eq] obtain fx0 where
    b: "bubble reg ty (Some tgt)
          (case orig of Inr se \<Rightarrow> se | Inl ne \<Rightarrow> SyntheticEvent ne ty tgt related ex)
          = (fx0, fst (snd ?res), snd (snd ?res))"
    and fx: "fst ?res = Fire ty tgt # fx0"
    by blast
  have "list_all notPrevent
      (fst (bubble reg ty (Some tgt)
              (case orig of Inr se \<Rightarrow> se | Inl ne \<Rightarrow> SyntheticEvent ne ty tgt related ex)))"
    using assms by (rule bubble_notPrevent)
  then have "list_all notPrevent fx0" by (simp only: b fst_conv)
  with fx show ?thesis by simp
qed

lemma tapCancelStep_other: "eventType e \<noteq> ''touchmove'' \<Longrightarrow> tapCancelStep e w = w"
  by (simp add: tapCancelStep_def split: option.splits)

text \<open>
  An action event leaves the tap candidate as it was and dispatches only its own mapped
  type and the types of the motion listener.
\<close>

lemma onPointerActionEvent_keeps_tap:
  "keeps (\<lambda>w'. tapInfo w' = tapInfo w) (firesWithin (mappedActionType e # motionTypes))
     (onPointerActionEvent cfg now e w)"
proof -
  let ?I = "\<lambda>w'. tapInfo w' = tapInfo w"
  let ?E = "firesWithin (mappedActionType e # motionTypes)"
  have okM: "list_all ?E (fst (firePointerEvent (eventRegistry cfg) ty orig tgt related ex))"
    if "ty \<in> set motionTypes" for ty orig tgt related ex
    using that by (intro firesWithin_dispatch) simp
  have okA: "list_all ?E (fst (firePointerEvent (eventRegistry cfg) (mappedActionType e) orig tgt related ex))"
    for orig tgt related ex
    by (intro firesWithin_dispatch) simp
  have motion: "keeps ?I ?E (onPointerMotionEvent cfg e w1)"
    if "?I w1" "eventType e \<noteq> ''touchmove''" for w1
    using that okM by (intro keeps_onPointerMotionEvent) (simp_all add: tapCancelStep_other)
  have first: "keeps ?I ?E
      (if eventType e = ''touchstart'' then
         andThen (if length (touches e) = 1 then onPointerMotionEvent cfg e w else proceed w)
           (\<lambda>w. proceed (w\<lparr> contextMenuEnabled := False \<rparr>))
       else proceed w)"
    by (auto intro!: keeps_andThen keeps_proceed motion)
  have drag: "keeps ?I ?E (dragInitStep e f w1)" if "?I w1" for w1 f
    using that by (simp add: dragInitStep_def keeps_proceed)
  have target: "keeps ?I ?E
      (case t of None \<Rightarrow> proceed w1
       | Some facade \<Rightarrow>
           andThen (fire cfg (mappedActionType e) e facade None hoverInfo w1)
             (\<lambda>w. andThen (tapStep cfg now e facade hoverInfo w) (dragInitStep e facade)))"
    if "?I w1" for w1 t hoverInfo
    using that okA
    by (cases t) (auto intro!: keeps_andThen keeps_proceed keeps_fire drag simp: tapStep_proceed)
  have action: "keeps ?I ?E (actionStep cfg now e w1)" if "?I w1" for w1
  proof (cases "actionListened cfg")
    case False
    with that show ?thesis by (simp add: actionStep_def keeps_proceed)
  next
    case True
    show ?thesis
    proof (cases "findHoverTarget cfg e")
      case (Inl x)
      with True that show ?thesis by (simp add: actionStep_def keeps_triple)
    next
      case (Inr hoverInfo)
      have fin: "keeps ?I ?E (w2, [NativePreventDefault (eventId e)], None)" if "?I w2" for w2
        using that by (simp add: keeps_triple firesWithin_def)
      have "actionStep cfg now e w1 =
          andThen
            (case map_option hfacade hoverInfo of
               None \<Rightarrow> proceed w1
             | Some facade \<Rightarrow>
                 andThen (fire cfg (mappedActionType e) e facade None hoverInfo w1)
                   (\<lambda>w. andThen (tapStep cfg now e facade hoverInfo w) (dragInitStep e facade)))
            (\<lambda>w. (w, [NativePreventDefault (eventId e)], None))"
        using True Inr by (simp add: actionStep_def)
      moreover have "keeps ?I ?E
          (case map_option hfacade hoverInfo of
             None \<Rightarrow> proceed w1
           | Some facade \<Rightarrow>
               andThen (fire cfg (mappedActionType e) e facade None hoverInfo w1)
                 (\<lambda>w. andThen (tapStep cfg now e facade hoverInfo w) (dragInitStep e facade)))"
        using that by (rule target)
      ultimately show ?thesis
        using fin by (simp add: keeps_andThen)
    qed
  qed
  have last: "keeps ?I ?E
      (if isTouchEndOrCancel e then
         andThen (if length (changedTouches e) = 1 then onPointerMotionEvent cfg e w1
                  else proceed w1)
           (\<lambda>w. proceed (w\<lparr> contextMenuEnabled := True \<rparr>))
       else proceed w1)" if "?I w1" for w1
    using that by (auto intro!: keeps_andThen keeps_proceed motion simp: isTouchEndOrCancel_def)
  show ?thesis
    unfolding onPointerActionEvent_def
    by (intro keeps_andThen first action last)
qed

text \<open>
  Claim C7. For an action event that resolves to a hit target none of whose chain has a
  click or dblclick listener, and that is not itself a native click or dblclick: the tap
  block does nothing, the tap candidate is as before, and no click or dblclick is
  dispatched.
\<close>

theorem tap_recognition_needs_listener:
  assumes "findHoverTarget cfg e = Inr (Some h)"
    and "\<not> listenerInChain (eventRegistry cfg) (hfacade h) ''click''"
    and "\<not> listenerInChain (eventRegistry cfg) (hfacade h) ''dblclick''"
    and "eventType e \<noteq> ''click''" and "eventType e \<noteq> ''dblclick''"
    and "onPointerActionEvent cfg now e w = (w', fx, r)"
  shows "tapStep cfg now e (hfacade h) (Some h) w0 = proceed w0 \<and>
         tapInfo w' = tapInfo w \<and>
         (\<forall>p \<in> set (fires fx). fst p \<noteq> ''click'' \<and> fst p \<noteq> ''dblclick'')"
proof -
  have k: "keeps (\<lambda>w'. tapInfo w' = tapInfo w) (firesWithin (mappedActionType e # motionTypes))
             (onPointerActionEvent cfg now e w)"
    by (rule onPointerActionEvent_keeps_tap)
  with assms(6) have t: "tapInfo w' = tapInfo w"
    and within: "\<forall>p \<in> set (fires fx). fst p \<in> set (mappedActionType e # motionTypes)"
    by (simp_all add: keeps_def list_all_firesWithin)
  have "''click'' \<notin> set (mappedActionType e # motionTypes)"
    "''dblclick'' \<notin> set (mappedActionType e # motionTypes)"
    using assms(4,5) by (simp_all add: mappedActionType_def motionTypes_def)
  with within have "\<forall>p \<in> set (fires fx). fst p \<noteq> ''click'' \<and> fst p \<noteq> ''dblclick''"
    by metis
  with t show ?thesis by (simp add: tapStep_proceed)
qed

theorem tap_recognition_needs_listener_witness:
  "findHoverTarget buttonClickConfig tapStart = Inr (Some (hitOn labelF 7)) \<and>
   \<not> listenerInChain (eventRegistry buttonClickConfig) labelF ''click'' \<and>
   \<not> listenerInChain (eventRegistry buttonClickConfig) labelF ''dblclick'' \<and>
   tapInfo (fst (onPointerActionEvent buttonClickConfig 0 tapStart idleWorld)) = None \<and>
   fires (fst (snd (onPointerActionEvent buttonClickConfig 0 tapStart idleWorld)))
     = [(''mousedown'', labelF)]"
proof -
  let ?res = "onPointerActionEvent buttonClickConfig 0 tapStart idleWorld"
  have eq: "?res = (fst ?res, fst (snd ?res), snd (snd ?res))" by simp
  have h: "findHoverTarget buttonClickConfig tapStart = Inr (Some (hitOn labelF 7))"
    by (simp add: findHoverTarget_def sortHits_def sortWith_def buttonClickConfig_def
          sampleConfig_def samplePick_def tapStart_def)
  have f: "hfacade (hitOn labelF 7) = labelF" by (simp add: hitOn_def)
  have c: "\<not> listenerInChain (eventRegistry buttonClickConfig) labelF ''click''"
    by (simp add: listenerInChain_def facadeListenersOfType_def buttonClickConfig_def
          sampleConfig_def labelF_def rootF_def)
  have d: "\<not> listenerInChain (eventRegistry buttonClickConfig) labelF ''dblclick''"
    by (simp add: listenerInChain_def facadeListenersOfType_def buttonClickConfig_def
          sampleConfig_def labelF_def rootF_def)
  have ty: "eventType tapStart \<noteq> ''click''" "eventType tapStart \<noteq> ''dblclick''"
    by (simp_all add: tapStart_def)
  have "tapInfo (fst ?res) = tapInfo idleWorld"
    using tap_recognition_needs_listener [OF h _ _ ty eq] c d f by simp
  then have t: "tapInfo (fst ?res) = None" by (simp add: idleWorld_def)
  have fs: "fires (fst (snd ?res)) = [(''mousedown'', labelF)]"
    by (simp add: tap_defs pipeline_defs scene_defs buttonClickConfig_def)
  from h c d t fs show ?thesis by simp
qed

text \<open>
  Claim C8 as stated fails when no target is found: a press on empty space, with action
  listeners registered, resolves to no target and \<open>preventDefault\<close> is still called on it.
\<close>

theorem preventDefault_without_target:
  "actionListened sampleConfig \<and>
   findHoverTarget sampleConfig missDown = Inr None \<and>
   fst (snd (onPointerActionEvent sampleConfig 0 missDown idleWorld))
     = [NativePreventDefault (eventId missDown)]"
  by (simp add: tap_defs pipeline_defs scene_defs missDown_def)

lemma actionStep_prevents:
  assumes "actionListened cfg" and "actionStep cfg now e w = (w', fx, None)"
  shows "NativePreventDefault (eventId e) \<in> set fx"
proof (cases "findHoverTarget cfg e")
  case (Inl x)
  with assms show ?thesis by (simp add: actionStep_def)
next
  case (Inr hoverInfo)
  with assms have
    "andThen
       (case map_option hfacade hoverInfo of
          None \<Rightarrow> proceed w
        | Some facade \<Rightarrow>
            andThen (fire cfg (mappedActionType e) e facade None hoverInfo w)
              (\<lambda>w. andThen (tapStep cfg now e facade hoverInfo w) (dragInitStep e facade)))
       (\<lambda>w. (w, [NativePreventDefault (eventId e)], None)) = (w', fx, None)"
    by (simp add: actionStep_def)
  then obtain w1 fx1 fx2 where
    "(w1, [NativePreventDefault (eventId e)], None :: exn option) = (w', fx2, None)"
    "fx = fx1 @ fx2"
    by (rule andThen_NoneE)
  then show ?thesis by auto
qed

text \<open>
  Claim C8, amended. For an action event processed to its end while action listeners are
  registered (a \<open>dragstart\<close> listener or a listener of a pointer action type),
  \<open>preventDefault\<close> is called on the native event, whether or not a target is found. When
  no such listener is registered, the pipeline makes no such call: with handlers that do
  not call it, it is called on no native event.
\<close>

theorem preventDefault_with_action_listeners:
  assumes "onPointerActionEvent cfg now e w = (w', fx, r)"
  shows "(actionListened cfg \<and> r = None \<longrightarrow> NativePreventDefault (eventId e) \<in> set fx) \<and>
         (\<not> actionListened cfg \<and> noHandlerPrevents (eventRegistry cfg) \<longrightarrow>
            (\<forall>i. NativePreventDefault i \<notin> set fx))"
proof -
  have a: "NativePreventDefault (eventId e) \<in> set fx" if listened: "actionListened cfg" and r: "r = None"
  proof -
    from assms r have
      "andThen
         (if eventType e = ''touchstart'' then
            andThen (if length (touches e) = 1 then onPointerMotionEvent cfg e w else proceed w)
              (\<lambda>w. proceed (w\<lparr> contextMenuEnabled := False \<rparr>))
          else proceed w)
         (\<lambda>w. andThen (actionStep cfg now e w)
            (\<lambda>w. if isTouchEndOrCancel e then
                    andThen
                      (if length (changedTouches e) = 1 then onPointerMotionEvent cfg e w
                       else proceed w)
                      (\<lambda>w. proceed (w\<lparr> contextMenuEnabled := True \<rparr>))
                  else proceed w)) = (w', fx, None)"
      by (simp add: onPointerActionEvent_def)
    then obtain w1 fx1 fx23 where
      rest: "andThen (actionStep cfg now e w1)
               (\<lambda>w. if isTouchEndOrCancel e then
                       andThen
                         (if length (changedTouches e) = 1 then onPointerMotionEvent cfg e w
                          else proceed w)
                         (\<lambda>w. proceed (w\<lparr> contextMenuEnabled := True \<rparr>))
                     else proceed w) = (w', fx23, None)"
      and fx: "fx = fx1 @ fx23"
      by (rule andThen_NoneE)
    from rest obtain w2 fx2 fx3 where
      act: "actionStep cfg now e w1 = (w2, fx2, None)" and fx23: "fx23 = fx2 @ fx3"
      by (rule andThen_NoneE)
    from actionStep_prevents [OF listened act] fx fx23 show ?thesis by simp
  qed
  have b: "\<forall>i. NativePreventDefault i \<notin> set fx"
    if listened: "\<not> actionListened cfg" and quiet: "noHandlerPrevents (eventRegistry cfg)"
  proof -
    let ?I = "\<lambda>w :: world. True"
    have ok: "list_all notPrevent (fst (firePointerEvent (eventRegistry cfg) ty orig tgt related ex))"
      for ty orig tgt related ex
      using quiet by (rule notPrevent_dispatch)
    have motion: "keeps ?I notPrevent (onPointerMotionEvent cfg e w1)" for w1
      using ok by (intro keeps_onPointerMotionEvent) simp_all
    have act: "actionStep cfg now e w1 = proceed w1" for w1
      using listened by (simp add: actionStep_def)
    have "keeps ?I notPrevent (onPointerActionEvent cfg now e w)"
      unfolding onPointerActionEvent_def act
      by (auto intro!: keeps_andThen keeps_proceed motion)
    with assms have "list_all notPrevent fx" by (simp add: keeps_def)
    then show ?thesis by (auto simp: list_all_iff)
  qed
  from a b show ?thesis by blast
qed

theorem preventDefault_with_action_listeners_witness:
  "actionListened sampleConfig \<and>
   snd (snd (onPointerActionEvent sampleConfig 0 missDown idleWorld)) = None \<and>
   NativePreventDefault (eventId missDown)
     \<in> set (fst (snd (onPointerActionEvent sampleConfig 0 missDown idleWorld))) \<and>
   \<not> actionListened hoverOnlyConfig \<and> noHandlerPrevents (eventRegistry hoverOnlyConfig) \<and>
   NativePreventDefault (eventId tapStart)
     \<notin> set (fst (snd (onPointerActionEvent hoverOnlyConfig 0 tapStart idleWorld)))"
proof -
  let ?res = "onPointerActionEvent sampleConfig 0 missDown idleWorld"
  let ?res2 = "onPointerActionEvent hoverOnlyConfig 0 tapStart idleWorld"
  have listened: "actionListened sampleConfig"
    by (simp add: actionListened_def hasAnyListenersOfType_def scene_defs)
  have r: "snd (snd ?res) = None"
    by (simp add: tap_defs pipeline_defs scene_defs missDown_def)
  then have run: "?res = (fst ?res, fst (snd ?res), None)" by (metis prod.collapse)
  have p: "NativePreventDefault (eventId missDown) \<in> set (fst (snd ?res))"
    using preventDefault_with_action_listeners [OF run] listened by simp
  have unlistened: "\<not> actionListened hoverOnlyConfig"
    by (simp add: actionListened_def hasAnyListenersOfType_def hoverOnlyConfig_def scene_defs)
  have quiet: "noHandlerPrevents (eventRegistry hoverOnlyConfig)"
    by (simp add: noHandlerPrevents_def hoverOnlyConfig_def scene_defs)
  have eq2: "?res2 = (fst ?res2, fst (snd ?res2), snd (snd ?res2))" by simp
  have n: "NativePreventDefault (eventId tapStart) \<notin> set (fst (snd ?res2))"
    using preventDefault_with_action_listeners [OF eq2] unlistened quiet by simp
  from listened r p unlistened quiet n show ?thesis by simp
qed

section \<open>The drag lifecycle\<close>

lemma lifecycle_append [simp]: "lifecycle (fx @ fx') = lifecycle fx @ lifecycle fx'"
  by (simp add: lifecycle_def)

lemma lifecycle_hover:
  "filter (\<lambda>p. fst p \<in> set dragLifecycleTypes) (map dispatchHead (hoverDispatches l h dragging)) = []"
  by (simp add: hoverDispatches_def dispatchHead_def dragLifecycleTypes_def split: option.splits)

lemma lifecycle_dragDispatches:
  "filter (\<lambda>p. fst p \<in> set dragLifecycleTypes) (dragDispatches di) = dragDispatches di"
  by (simp add: dragDispatches_def dragLifecycleTypes_def split: option.splits)

lemma hover_not_drag:
  "p \<in> set (map dispatchHead (hoverDispatches l h False)) \<Longrightarrow> fst p \<notin> set dragTypes"
  by (auto simp: hoverDispatches_def dispatchHead_def dragTypes_def split: option.splits if_splits)

text \<open>One motion event during a drag.\<close>

lemma motion_during_drag:
  assumes "motionListened cfg" and "dragInfo w = Some d"
    and "onPointerMotionEvent cfg e w = (w', fx, None)"
  shows "lifecycle fx = dragDispatches (Some d) \<and>
         (\<exists>d'. dragInfo w' = Some d' \<and> draggedFacade d' = draggedFacade d \<and> dragStartFired d') \<and>
         dropListeners w' = dropListeners w"
proof -
  from assms(1,3) obtain hoverInfo w1 dragFx where
    d: "dragStep cfg e w = (w1, dragFx, None)" and
    w': "w' = tapCancelStep e (w1\<lparr> hoveredFacade := map_option hfacade hoverInfo \<rparr>)" and
    fx: "fx = dragFx @ concat (map (dispatchLog cfg e hoverInfo)
            (hoverDispatches (hoveredFacade w) (map_option hfacade hoverInfo) (dragInfo w \<noteq> None)))"
    by (rule onPointerMotionEvent_completes)
  from dragStep_completes [OF d] assms(2) obtain d1 where
    df: "fires dragFx = dragDispatches (Some d)" and
    d1: "dragInfo w1 = Some d1" "dragStartFired d1" "draggedFacade d1 = draggedFacade d" and
    dl: "dropListeners w1 = dropListeners w"
    by auto
  have "lifecycle fx = dragDispatches (Some d)"
    using fx df
    by (simp add: lifecycle_def fires_concat_dispatchLog lifecycle_hover lifecycle_dragDispatches)
  moreover have "dragInfo w' = Some d1" "dropListeners w' = dropListeners w"
    using w' d1 dl tapCancelStep_keeps by simp_all
  ultimately show ?thesis using d1 by simp
qed

text \<open>One motion event with no drag in progress.\<close>

lemma motion_without_drag:
  assumes "dragInfo w = None" and "onPointerMotionEvent cfg e w = (w', fx, None)"
  shows "dragInfo w' = None \<and> (\<forall>p \<in> set (fires fx). fst p \<notin> set dragTypes)"
proof (cases "motionListened cfg")
  case False
  with assms(2) have "w' = tapCancelStep e w" "fx = []"
    by (simp_all add: onPointerMotionEvent_def proceed_def andThen_ok)
  with assms(1) show ?thesis using tapCancelStep_keeps [of e w] by simp
next
  case True
  from True assms(2) obtain hoverInfo w1 dragFx where
    d: "dragStep cfg e w = (w1, dragFx, None)" and
    w': "w' = tapCancelStep e (w1\<lparr> hoveredFacade := map_option hfacade hoverInfo \<rparr>)" and
    fx: "fx = dragFx @ concat (map (dispatchLog cfg e hoverInfo)
            (hoverDispatches (hoveredFacade w) (map_option hfacade hoverInfo) (dragInfo w \<noteq> None)))"
    by (rule onPointerMotionEvent_completes)
  from dragStep_completes [OF d] assms(1) have
    df: "fires dragFx = []" and d1: "dragInfo w1 = None"
    by (simp_all add: dragDispatches_def)
  have "fires fx = map dispatchHead
          (hoverDispatches (hoveredFacade w) (map_option hfacade hoverInfo) False)"
    using fx df assms(1) by (simp add: fires_concat_dispatchLog)
  then have "\<forall>p \<in> set (fires fx). fst p \<notin> set dragTypes"
    using hover_not_drag by metis
  moreover have "dragInfo w' = None" using w' d1 tapCancelStep_keeps by simp
  ultimately show ?thesis by simp
qed

lemma runMotions_during_drag:
  assumes "motionListened cfg" and "dragInfo w = Some d"
    and "runMotions cfg es w = (w', fx, None)"
  shows "lifecycle fx =
           (if es = [] \<or> dragStartFired d then [] else [(''dragstart'', draggedFacade d)]) @
           replicate (length es) (''drag'', draggedFacade d) \<and>
         (\<exists>d'. dragInfo w' = Some d' \<and> draggedFacade d' = draggedFacade d \<and>
               (es \<noteq> [] \<longrightarrow> dragStartFired d')) \<and>
         dropListeners w' = dropListeners w"
  using assms(2,3)
proof (induction es arbitrary: w d fx)
  case Nil
  then show ?case by (simp add: proceed_def lifecycle_def)
next
  case (Cons e es)
  from Cons.prems(2) have
    "andThen (onPointerMotionEvent cfg e w) (runMotions cfg es) = (w', fx, None)"
    by simp
  then obtain w1 fx1 fx2 where
    one: "onPointerMotionEvent cfg e w = (w1, fx1, None)" and
    rest: "runMotions cfg es w1 = (w', fx2, None)" and fx: "fx = fx1 @ fx2"
    by (rule andThen_NoneE)
  from motion_during_drag [OF assms(1) Cons.prems(1) one] obtain d1 where
    l1: "lifecycle fx1 = dragDispatches (Some d)" and
    d1: "dragInfo w1 = Some d1" "draggedFacade d1 = draggedFacade d" "dragStartFired d1" and
    dl1: "dropListeners w1 = dropListeners w"
    by blast
  from Cons.IH [OF d1(1) rest] d1 obtain d' where
    l2: "lifecycle fx2 = replicate (length es) (''drag'', draggedFacade d)" and
    d': "dragInfo w' = Some d'" "draggedFacade d' = draggedFacade d"
      "es \<noteq> [] \<longrightarrow> dragStartFired d'" and
    dl2: "dropListeners w' = dropListeners w1"
    by auto
  have fired: "dragStartFired d'"
  proof (cases es)
    case Nil
    with rest d1 d' show ?thesis by (simp add: proceed_def)
  next
    case (Cons a list)
    with d' show ?thesis by simp
  qed
  show ?case
    using fx l1 l2 d' fired dl1 dl2 by (auto simp: dragDispatches_def)
qed

lemma runMotions_without_drag:
  assumes "dragInfo w = None" and "runMotions cfg es w = (w', fx, None)"
  shows "dragInfo w' = None \<and> (\<forall>p \<in> set (fires fx). fst p \<notin> set dragTypes)"
  using assms
proof (induction es arbitrary: w fx)
  case Nil
  then show ?case by (simp add: proceed_def)
next
  case (Cons e es)
  from Cons.prems(2) have
    "andThen (onPointerMotionEvent cfg e w) (runMotions cfg es) = (w', fx, None)"
    by simp
  then obtain w1 fx1 fx2 where
    one: "onPointerMotionEvent cfg e w = (w1, fx1, None)" and
    rest: "runMotions cfg es w1 = (w', fx2, None)" and fx: "fx = fx1 @ fx2"
    by (rule andThen_NoneE)
  from motion_without_drag [OF Cons.prems(1) one] have
    a: "dragInfo w1 = None" "\<forall>p \<in> set (fires fx1). fst p \<notin> set dragTypes"
    by simp_all
  from Cons.IH [OF a(1) rest] a(2) fx show ?case by auto
qed

lemma lifecycle_none:
  "\<forall>p \<in> set (fires fx). fst p \<notin> set dragTypes \<Longrightarrow> lifecycle fx = []"
  by (auto simp: lifecycle_def dragTypes_def dragLifecycleTypes_def filter_empty_conv)

text \<open>The press: nothing of the drag lifecycle is dispatched, the drag is prepared.\<close>

lemma press_prepares_drag:
  assumes listened: "actionListened cfg"
    and h: "findHoverTarget cfg e = Inr (Some h)"
    and cap: "onDragStart (hfacade h)"
    and ty: "eventType e = ''mousedown'' \<or> eventType e = ''touchstart''"
    and idle: "dragInfo w = None"
    and run: "onPointerActionEvent cfg now e w = (w', fx, None)"
  shows "dragInfo w' = Some \<lparr> draggedFacade = hfacade h, dragStartFired = False,
                             dragStartEvent = SyntheticEvent e ''dragstart'' (hfacade h) None None \<rparr> \<and>
         dropListeners w' \<and> lifecycle fx = []"
proof -
  let ?first = "if eventType e = ''touchstart'' then
                  andThen (if length (touches e) = 1 then onPointerMotionEvent cfg e w
                           else proceed w)
                    (\<lambda>w. proceed (w\<lparr> contextMenuEnabled := False \<rparr>))
                else proceed w"
  let ?last = "\<lambda>w. if isTouchEndOrCancel e then
                  andThen
                    (if length (changedTouches e) = 1 then onPointerMotionEvent cfg e w
                     else proceed w)
                    (\<lambda>w. proceed (w\<lparr> contextMenuEnabled := True \<rparr>))
                else proceed w"
  from run have "andThen ?first (\<lambda>w. andThen (actionStep cfg now e w) ?last) = (w', fx, None)"
    by (simp add: onPointerActionEvent_def)
  then obtain wA fxA fxBC where
    first: "?first = (wA, fxA, None)" and
    bc: "andThen (actionStep cfg now e wA) ?last = (w', fxBC, None)" and fx: "fx = fxA @ fxBC"
    by (rule andThen_NoneE)
  from bc obtain wB fxB fxC where
    act: "actionStep cfg now e wA = (wB, fxB, None)" and
    lst: "?last wB = (w', fxC, None)" and fxBC: "fxBC = fxB @ fxC"
    by (rule andThen_NoneE)
  have notEnd: "\<not> isTouchEndOrCancel e" using ty by (auto simp: isTouchEndOrCancel_def)
  with lst have w': "w' = wB" and fxC: "fxC = []" by (simp_all add: proceed_def)
  have A: "dragInfo wA = None \<and> lifecycle fxA = []"
  proof (cases "eventType e = ''touchstart'' \<and> length (touches e) = 1")
    case False
    with first idle show ?thesis
      by (auto simp: proceed_def andThen_ok lifecycle_def split: if_splits)
  next
    case True
    with first have
      "andThen (onPointerMotionEvent cfg e w) (\<lambda>w. proceed (w\<lparr> contextMenuEnabled := False \<rparr>))
         = (wA, fxA, None)"
      by simp
    then obtain w1 fx1 fx2 where
      m: "onPointerMotionEvent cfg e w = (w1, fx1, None)" and
      p: "proceed (w1\<lparr> contextMenuEnabled := False \<rparr>) = (wA, fx2, None)" and
      fxA: "fxA = fx1 @ fx2"
      by (rule andThen_NoneE)
    from motion_without_drag [OF idle m] have
      "dragInfo w1 = None" "lifecycle fx1 = []"
      by (simp_all add: lifecycle_none)
    with p fxA show ?thesis by (auto simp: proceed_def lifecycle_def)
  qed
  have mapped: "mappedActionType e = ''mousedown''"
    using ty by (auto simp: mappedActionType_def)
  let ?d = "(''mousedown'', hfacade h, None :: facade option)"
  from act listened h cap ty have
    "(wA\<lparr> dragInfo := Some \<lparr> draggedFacade = hfacade h, dragStartFired = False,
                             dragStartEvent = SyntheticEvent e ''dragstart'' (hfacade h) None None \<rparr>,
          dropListeners := True \<rparr>,
      dispatchLog cfg e (Some h) ?d @ [NativePreventDefault (eventId e)],
      None :: exn option) = (wB, fxB, None)"
    by (cases "dispatchThrows cfg e (Some h) ?d")
       (auto simp: actionStep_def mapped fire_eq andThen_ok tapStep_proceed dragInitStep_def
          proceed_def)
  then have B: "wB = wA\<lparr> dragInfo := Some \<lparr> draggedFacade = hfacade h, dragStartFired = False,
                             dragStartEvent = SyntheticEvent e ''dragstart'' (hfacade h) None None \<rparr>,
                        dropListeners := True \<rparr>"
    and fxB: "fxB = dispatchLog cfg e (Some h) ?d @ [NativePreventDefault (eventId e)]"
    by simp_all
  have "lifecycle fxB = []"
    by (simp add: fxB lifecycle_def fires_dispatchLog dispatchHead_def dragLifecycleTypes_def)
  with A B w' fx fxBC fxC show ?thesis by simp
qed

text \<open>The release.\<close>

lemma drop_ends_drag:
  assumes "dragInfo w = Some d" and "onDropEvent cfg e w = (w', fx, None)"
  shows "fires fx = (case dropTarget cfg e of None \<Rightarrow> [] | Some t \<Rightarrow> [(''drop'', t)]) @
                    [(''dragend'', draggedFacade d)] \<and>
         dragInfo w' = None \<and> \<not> dropListeners w'"
proof -
  obtain hoverInfo where hi:
    "(if targetIsElement e then findHoverTarget cfg e else Inr None) = Inr hoverInfo"
    using assms
    by (cases "if targetIsElement e then findHoverTarget cfg e else Inr None")
       (simp_all add: onDropEvent_def)
  then have tgt: "dropTarget cfg e = map_option hfacade hoverInfo"
    by (auto simp: dropTarget_def split: if_splits option.splits)
  let ?end = "(''dragend'', draggedFacade d, None :: facade option)"
  show ?thesis
  proof (cases hoverInfo)
    case None
    with assms hi tgt show ?thesis
      by (cases "dispatchThrows cfg e None ?end")
         (auto simp: onDropEvent_def fire_eq andThen_ok proceed_def fires_dispatchLog
            dispatchHead_def)
  next
    case (Some hit)
    let ?drop = "(''drop'', hfacade hit, None :: facade option)"
    from Some assms hi tgt show ?thesis
      by (cases "dispatchThrows cfg e (Some hit) ?drop";
          cases "dispatchThrows cfg e (Some hit) ?end")
         (auto simp: onDropEvent_def fire_eq andThen_ok proceed_def fires_dispatchLog
            dispatchHead_def)
  qed
qed

text \<open>
  Claim C5. A press (mousedown or touch-start) on a drag-capable target, with no drag in
  progress, dispatches nothing of the drag lifecycle, records the drag with \<open>dragstart\<close>
  not yet fired and attaches the release listeners. The motion events after it, processed
  to their end while a listener of a motion type is registered, dispatch \<open>dragstart\<close> once, at the first of them,
  and \<open>drag\<close> once per event, all on the dragged facade. The release dispatches \<open>drop\<close> on
  the drop target if one resolves, then \<open>dragend\<close> on the dragged facade in either case,
  clears the drag and detaches the release listeners. Motion events after that dispatch no
  drag event of any type.
\<close>

theorem drag_lifecycle:
  "(actionListened cfg \<and> findHoverTarget cfg e0 = Inr (Some h) \<and> onDragStart (hfacade h) \<and>
    (eventType e0 = ''mousedown'' \<or> eventType e0 = ''touchstart'') \<and> dragInfo w0 = None \<and>
    onPointerActionEvent cfg now e0 w0 = (w1, fx1, None) \<longrightarrow>
      dragInfo w1 = Some \<lparr> draggedFacade = hfacade h, dragStartFired = False,
                            dragStartEvent = SyntheticEvent e0 ''dragstart'' (hfacade h) None None \<rparr> \<and>
      dropListeners w1 \<and> lifecycle fx1 = []) \<and>
   (motionListened cfg \<and> dragInfo w1 = Some d \<and> \<not> dragStartFired d \<and> es \<noteq> [] \<and>
    runMotions cfg es w1 = (w2, fx2, None) \<longrightarrow>
      lifecycle fx2 = (''dragstart'', draggedFacade d) #
                      replicate (length es) (''drag'', draggedFacade d) \<and>
      (\<exists>d'. dragInfo w2 = Some d' \<and> draggedFacade d' = draggedFacade d \<and> dragStartFired d') \<and>
      dropListeners w2 = dropListeners w1) \<and>
   (dragInfo w2 = Some d2 \<and> onDropEvent cfg e3 w2 = (w3, fx3, None) \<longrightarrow>
      fires fx3 = (case dropTarget cfg e3 of None \<Rightarrow> [] | Some t \<Rightarrow> [(''drop'', t)]) @
                  [(''dragend'', draggedFacade d2)] \<and>
      dragInfo w3 = None \<and> \<not> dropListeners w3) \<and>
   (dragInfo w3 = None \<and> runMotions cfg es4 w3 = (w4, fx4, None) \<longrightarrow>
      dragInfo w4 = None \<and> (\<forall>p \<in> set (fires fx4). fst p \<notin> set dragTypes))"
proof (intro conjI impI)
  assume a: "actionListened cfg \<and> findHoverTarget cfg e0 = Inr (Some h) \<and> onDragStart (hfacade h) \<and>
    (eventType e0 = ''mousedown'' \<or> eventType e0 = ''touchstart'') \<and> dragInfo w0 = None \<and>
    onPointerActionEvent cfg now e0 w0 = (w1, fx1, None)"
  then have p: "dragInfo w1 = Some \<lparr> draggedFacade = hfacade h, dragStartFired = False,
                            dragStartEvent = SyntheticEvent e0 ''dragstart'' (hfacade h) None None \<rparr> \<and>
      dropListeners w1 \<and> lifecycle fx1 = []"
    using press_prepares_drag [of cfg e0 h w0 now w1 fx1] by blast
  from p show "dragInfo w1 = Some \<lparr> draggedFacade = hfacade h, dragStartFired = False,
                            dragStartEvent = SyntheticEvent e0 ''dragstart'' (hfacade h) None None \<rparr>"
    by simp
  from p show "dropListeners w1" by simp
  from p show "lifecycle fx1 = []" by simp
next
  assume b: "motionListened cfg \<and> dragInfo w1 = Some d \<and> \<not> dragStartFired d \<and> es \<noteq> [] \<and>
    runMotions cfg es w1 = (w2, fx2, None)"
  then have m: "lifecycle fx2 =
           (if es = [] \<or> dragStartFired d then [] else [(''dragstart'', draggedFacade d)]) @
           replicate (length es) (''drag'', draggedFacade d) \<and>
         (\<exists>d'. dragInfo w2 = Some d' \<and> draggedFacade d' = draggedFacade d \<and>
               (es \<noteq> [] \<longrightarrow> dragStartFired d')) \<and>
         dropListeners w2 = dropListeners w1"
    using runMotions_during_drag [of cfg w1 d es w2 fx2] by blast
  from m b show "lifecycle fx2 = (''dragstart'', draggedFacade d) #
                      replicate (length es) (''drag'', draggedFacade d)"
    by simp
  from m b show "\<exists>d'. dragInfo w2 = Some d' \<and> draggedFacade d' = draggedFacade d \<and> dragStartFired d'"
    by simp
  from m show "dropListeners w2 = dropListeners w1" by simp
next
  assume c: "dragInfo w2 = Some d2 \<and> onDropEvent cfg e3 w2 = (w3, fx3, None)"
  then have r: "fires fx3 = (case dropTarget cfg e3 of None \<Rightarrow> [] | Some t \<Rightarrow> [(''drop'', t)]) @
                    [(''dragend'', draggedFacade d2)] \<and>
         dragInfo w3 = None \<and> \<not> dropListeners w3"
    using drop_ends_drag [of w2 d2 cfg e3 w3 fx3] by blast
  from r show "fires fx3 = (case dropTarget cfg e3 of None \<Rightarrow> [] | Some t \<Rightarrow> [(''drop'', t)]) @
                  [(''dragend'', draggedFacade d2)]"
    by simp
  from r show "dragInfo w3 = None" by simp
  from r show "\<not> dropListeners w3" by simp
next
  assume d: "dragInfo w3 = None \<and> runMotions cfg es4 w3 = (w4, fx4, None)"
  then have r: "dragInfo w4 = None \<and> (\<forall>p \<in> set (fires fx4). fst p \<notin> set dragTypes)"
    using runMotions_without_drag [of w3 cfg es4 w4 fx4] by blast
  from r show "dragInfo w4 = None" by simp
  from r show "\<forall>p \<in> set (fires fx4). fst p \<notin> set dragTypes" by simp
qed

lemmas drag_sample_defs =
  pressButton_def dragMoves_def releaseOnLabel_def afterMoves_def onDropEvent_def
  pressedWorld_def movedWorld_def releasedWorld_def

theorem drag_lifecycle_witness:
  "actionListened sampleConfig \<and> motionListened sampleConfig \<and>
   findHoverTarget sampleConfig pressButton = Inr (Some (hitOn buttonF 5)) \<and>
   onDragStart buttonF \<and>
   lifecycle (fst (snd (onPointerActionEvent sampleConfig 0 pressButton idleWorld))) = [] \<and>
   dropListeners pressedWorld \<and>
   lifecycle (fst (snd (runMotions sampleConfig dragMoves pressedWorld)))
     = [(''dragstart'', buttonF), (''drag'', buttonF), (''drag'', buttonF)] \<and>
   fires (fst (snd (onDropEvent sampleConfig releaseOnLabel movedWorld)))
     = [(''drop'', labelF), (''dragend'', buttonF)] \<and>
   dragInfo releasedWorld = None \<and> \<not> dropListeners releasedWorld \<and>
   dragInfo (fst (runMotions sampleConfig afterMoves releasedWorld)) = None"
proof -
  let ?press = "onPointerActionEvent sampleConfig 0 pressButton idleWorld"
  let ?moves = "runMotions sampleConfig dragMoves pressedWorld"
  let ?drop = "onDropEvent sampleConfig releaseOnLabel movedWorld"
  let ?after = "runMotions sampleConfig afterMoves releasedWorld"
  let ?d = "\<lparr> draggedFacade = buttonF, dragStartFired = False,
              dragStartEvent = SyntheticEvent pressButton ''dragstart'' buttonF None None \<rparr>"
  have ag: "actionListened sampleConfig"
    by (simp add: actionListened_def hasAnyListenersOfType_def scene_defs)
  have mg: "motionListened sampleConfig"
    by (simp add: motionListened_def hasAnyListenersOfType_def scene_defs)
  have h: "findHoverTarget sampleConfig pressButton = Inr (Some (hitOn buttonF 5))"
    by (simp add: findHoverTarget_def sortHits_def sortWith_def sampleConfig_def samplePick_def
          pressButton_def)
  have cap: "onDragStart buttonF" "hfacade (hitOn buttonF 5) = buttonF"
    by (simp_all add: buttonF_def hitOn_def)
  have ty: "eventType pressButton = ''mousedown''" by (simp add: pressButton_def)
  have idle: "dragInfo idleWorld = None" by (simp add: idleWorld_def)
  have "snd (snd ?press) = None"
    by (simp add: tap_defs pipeline_defs scene_defs drag_sample_defs)
  then have r1: "?press = (pressedWorld, fst (snd ?press), None)"
    unfolding pressedWorld_def by (metis prod.collapse)
  have "snd (snd ?moves) = None"
    by (simp add: tap_defs pipeline_defs scene_defs drag_sample_defs)
  then have r2: "?moves = (movedWorld, fst (snd ?moves), None)"
    unfolding movedWorld_def by (metis prod.collapse)
  have "snd (snd ?drop) = None"
    by (simp add: tap_defs pipeline_defs scene_defs drag_sample_defs)
  then have r3: "?drop = (releasedWorld, fst (snd ?drop), None)"
    unfolding releasedWorld_def by (metis prod.collapse)
  have "snd (snd ?after) = None"
    by (simp add: tap_defs pipeline_defs scene_defs drag_sample_defs)
  then have r4: "?after = (fst ?after, fst (snd ?after), None)"
    by (metis prod.collapse)
  have dt: "dropTarget sampleConfig releaseOnLabel = Some labelF"
    by (simp add: dropTarget_def findHoverTarget_def sortHits_def sortWith_def sampleConfig_def
          samplePick_def releaseOnLabel_def hitOn_def)
  have ne: "dragMoves \<noteq> []" "length dragMoves = 2" by (simp_all add: dragMoves_def)
  note step = drag_lifecycle [where cfg = sampleConfig and ?e0.0 = pressButton
      and h = "hitOn buttonF 5" and ?w0.0 = idleWorld and now = 0 and ?w1.0 = pressedWorld
      and ?fx1.0 = "fst (snd ?press)" and d = ?d and es = dragMoves and ?w2.0 = movedWorld
      and ?fx2.0 = "fst (snd ?moves)" and ?e3.0 = releaseOnLabel and ?w3.0 = releasedWorld
      and ?fx3.0 = "fst (snd ?drop)" and ?es4.0 = afterMoves and ?w4.0 = "fst ?after"
      and ?fx4.0 = "fst (snd ?after)"]
  from step ag h cap ty idle r1 have
    a: "dragInfo pressedWorld = Some ?d" "dropListeners pressedWorld" "lifecycle (fst (snd ?press)) = []"
    by simp_all
  from step mg a(1) ne r2 have
    b: "lifecycle (fst (snd ?moves)) = [(''dragstart'', buttonF), (''drag'', buttonF), (''drag'', buttonF)]"
    and b2: "\<exists>d'. dragInfo movedWorld = Some d' \<and> draggedFacade d' = buttonF \<and> dragStartFired d'"
    by (simp_all add: numeral_2_eq_2)
  from b2 obtain d2 where d2: "dragInfo movedWorld = Some d2" "draggedFacade d2 = buttonF"
    by blast
  from step [where ?d2.0 = d2] d2 r3 dt have
    c: "fires (fst (snd ?drop)) = [(''drop'', labelF), (''dragend'', buttonF)]"
      "dragInfo releasedWorld = None" "\<not> dropListeners releasedWorld"
    by simp_all
  from step c(2) r4 have e: "dragInfo (fst ?after) = None" by simp
  from ag mg h cap a b c e show ?thesis by simp
qed

end
